theory Spec2Isabelle
  imports Complex_Main "HOL-Library.Char_ord" "HOL-Library.List_Lexorder"
begin

section \<open>Common types\<close>

text \<open>
  Python \<^verbatim>\<open>bytes\<close> are lists of 8-bit characters. A Python \<^verbatim>\<open>str\<close> is represented
  by its UTF-8 encoding, again a list of 8-bit characters, so that the text written to the
  queue file and the text held in an envelope are the same list. Python integers are
  unbounded: \<^typ>\<open>int\<close>. File offsets and sizes are never negative: \<^typ>\<open>nat\<close>.
\<close>

type_synonym bytes = "char list"

text \<open>
  The exceptions the modelled code raises or meets. \<open>DecodeError\<close> stands for
  \<^verbatim>\<open>msgspec.DecodeError\<close> and its subclass \<^verbatim>\<open>msgspec.ValidationError\<close>;
  \<open>ValueError\<close> is what the encoder raises at an integer it cannot write.
\<close>

datatype error = FileNotFoundError | DecodeError | ValueError | RuntimeError string


section \<open>The JSON codec (msgspec.json)\<close>

text \<open>
  inbox.py writes an envelope with \<^verbatim>\<open>msgspec.json.encode\<close> and reads it back with
  \<^verbatim>\<open>msgspec.json.decode(raw_line, type=SwarmEnvelope)\<close>. msgspec is a third-party
  library; this section states the JSON format the two calls write and read (RFC 8259),
  for the values an envelope holds.

  Integers are written in decimal. An integer beyond 64 bits goes through the
  interpreter's conversion between \<^verbatim>\<open>int\<close> and \<^verbatim>\<open>str\<close>, which stops at 4300 digits
  (inbox.py imports \<^verbatim>\<open>datetime.UTC\<close>, so the interpreter is CPython 3.11 or later):
  the encoder raises \<^verbatim>\<open>ValueError\<close> at an integer of more than 4300 digits, and the
  decoder rejects an integer literal of more than 4300 digits.

  A JSON document. A number written with a fraction or an exponent is kept as written
  (\<open>JFloat\<close>): no field of the envelope is a float.
\<close>

datatype json =
    JNull
  | JBool bool
  | JInt int
  | JFloat bytes
  | JStr string
  | JArr "json list"
  | JObj "(string \<times> json) list"

subsection \<open>Writing\<close>

text \<open>
  The encoder writes compact JSON: no whitespace, integers in decimal, the members of an
  object in order. In a string it escapes the quote, the backslash and the control
  characters below \<^verbatim>\<open>0x20\<close> (\<^verbatim>\<open>\b \t \n \f \r\<close> by name, the others as \<^verbatim>\<open>\u00XX\<close>) and
  writes every other byte as it is, so text beyond ASCII stays UTF-8.
\<close>

fun digits_of_nat :: "nat \<Rightarrow> bytes" where
  "digits_of_nat n =
     (if n < 10 then [char_of (48 + n)]
      else digits_of_nat (n div 10) @ [char_of (48 + n mod 10)])"

declare digits_of_nat.simps [simp del]

text \<open>The limit on the digits of an integer, and the integers within it.\<close>

definition max_str_digits :: nat where
  "max_str_digits = 4300"

definition int_ok :: "int \<Rightarrow> bool" where
  "int_ok i \<longleftrightarrow> length (digits_of_nat (nat \<bar>i\<bar>)) \<le> max_str_digits"

text \<open>The decimal numeral of an integer.\<close>

definition decimal :: "int \<Rightarrow> bytes" where
  "decimal i = (if i < 0 then CHR ''-'' # digits_of_nat (nat (- i)) else digits_of_nat (nat i))"

definition hex_digit :: "nat \<Rightarrow> char" where
  "hex_digit n = (if n < 10 then char_of (48 + n) else char_of (87 + n))"

definition escape_char :: "char \<Rightarrow> bytes" where
  "escape_char c =
     (if c = CHR 0x22 then [CHR 0x5C, CHR 0x22]
      else if c = CHR 0x5C then [CHR 0x5C, CHR 0x5C]
      else if c = CHR 0x0A then [CHR 0x5C, CHR ''n'']
      else if c = CHR 0x0D then [CHR 0x5C, CHR ''r'']
      else if c = CHR 0x09 then [CHR 0x5C, CHR ''t'']
      else if c = CHR 0x08 then [CHR 0x5C, CHR ''b'']
      else if c = CHR 0x0C then [CHR 0x5C, CHR ''f'']
      else if (of_char c :: nat) < 0x20
        then [CHR 0x5C, CHR ''u'', CHR ''0'', CHR ''0'',
              hex_digit (of_char c div 16), hex_digit (of_char c mod 16)]
      else [c])"

definition json_string :: "string \<Rightarrow> bytes" where
  "json_string s = CHR 0x22 # concat (map escape_char s) @ [CHR 0x22]"

fun join_with :: "bytes \<Rightarrow> bytes list \<Rightarrow> bytes" where
  "join_with sep [] = []"
| "join_with sep [x] = x"
| "join_with sep (x # y # ys) = x @ sep @ join_with sep (y # ys)"

fun json_text :: "json \<Rightarrow> bytes" where
  "json_text JNull = ''null''"
| "json_text (JBool b) = (if b then ''true'' else ''false'')"
| "json_text (JInt i) = decimal i"
| "json_text (JFloat t) = t"
| "json_text (JStr s) = json_string s"
| "json_text (JArr vs) = ''['' @ join_with '','' (map json_text vs) @ '']''"
| "json_text (JObj ms) =
     ''{'' @ join_with '','' (map (\<lambda>m. json_string (fst m) @ '':'' @ json_text (snd m)) ms) @ ''}''"

text \<open>
  \<^verbatim>\<open>msgspec.json.encode\<close>: the text of the value, or \<^verbatim>\<open>ValueError\<close> when the value
  holds an integer beyond the limit. Nothing is returned in that case, so the test comes
  first.
\<close>

fun ints_ok :: "json \<Rightarrow> bool" where
  "ints_ok (JInt i) = int_ok i"
| "ints_ok (JArr vs) = list_all ints_ok vs"
| "ints_ok (JObj ms) = list_all (\<lambda>m. ints_ok (snd m)) ms"
| "ints_ok _ = True"

definition json_encode :: "json \<Rightarrow> error + bytes" where
  "json_encode j = (if ints_ok j then Inr (json_text j) else Inl ValueError)"

subsection \<open>Reading\<close>

text \<open>
  The decoder accepts the JSON grammar: whitespace is space, line feed, carriage return and
  tab; a number has no leading zero; a string holds no raw control character, its escapes
  are the named ones and \<^verbatim>\<open>\uXXXX\<close> (a high surrogate must be followed by an escaped low
  surrogate, a lone low surrogate is an error), and its bytes beyond ASCII must be
  well-formed UTF-8.
\<close>

definition json_ws :: "char \<Rightarrow> bool" where
  "json_ws c \<longleftrightarrow> c = CHR '' '' \<or> c = CHR 0x0A \<or> c = CHR 0x0D \<or> c = CHR 0x09"

definition skip_ws :: "bytes \<Rightarrow> bytes" where
  "skip_ws bs = dropWhile json_ws bs"

definition is_digit :: "char \<Rightarrow> bool" where
  "is_digit c \<longleftrightarrow> 48 \<le> (of_char c :: nat) \<and> (of_char c :: nat) \<le> 57"

definition nat_of_digits :: "bytes \<Rightarrow> nat" where
  "nat_of_digits ds = foldl (\<lambda>n c. 10 * n + (of_char c - 48)) 0 ds"

definition parse_frac :: "bytes \<Rightarrow> (bytes \<times> bytes) option" where
  "parse_frac bs =
     (case bs of
        [] \<Rightarrow> Some ([], [])
      | c # r \<Rightarrow>
          if c = CHR ''.''
          then (if takeWhile is_digit r = [] then None
                else Some (c # takeWhile is_digit r, dropWhile is_digit r))
          else Some ([], bs))"

definition parse_exp :: "bytes \<Rightarrow> (bytes \<times> bytes) option" where
  "parse_exp bs =
     (case bs of
        [] \<Rightarrow> Some ([], [])
      | c # r \<Rightarrow>
          if c = CHR ''e'' \<or> c = CHR ''E''
          then (let sign = (case r of
                              [] \<Rightarrow> []
                            | s # _ \<Rightarrow> if s = CHR ''+'' \<or> s = CHR ''-'' then [s] else []);
                    r1 = drop (length sign) r
                in if takeWhile is_digit r1 = [] then None
                   else Some (c # sign @ takeWhile is_digit r1, dropWhile is_digit r1))
          else Some ([], bs))"

definition parse_number :: "bytes \<Rightarrow> (json \<times> bytes) option" where
  "parse_number bs =
     (let sign = (case bs of [] \<Rightarrow> [] | c # _ \<Rightarrow> if c = CHR ''-'' then [c] else []);
          bs1 = drop (length sign) bs;
          ds = takeWhile is_digit bs1
      in if ds = [] \<or> (1 < length ds \<and> hd ds = CHR ''0'') then None
         else (case parse_frac (dropWhile is_digit bs1) of
                 None \<Rightarrow> None
               | Some (fr, bs2) \<Rightarrow>
                   (case parse_exp bs2 of
                      None \<Rightarrow> None
                    | Some (ex, bs3) \<Rightarrow>
                        if fr = [] \<and> ex = []
                        then (if max_str_digits < length ds then None
                              else Some (JInt (if sign = [] then int (nat_of_digits ds)
                                               else - int (nat_of_digits ds)),
                                         bs3))
                        else Some (JFloat (sign @ ds @ fr @ ex), bs3))))"

definition hex_val :: "char \<Rightarrow> nat option" where
  "hex_val c =
     (let n = (of_char c :: nat)
      in if 48 \<le> n \<and> n \<le> 57 then Some (n - 48)
         else if 97 \<le> n \<and> n \<le> 102 then Some (n - 87)
         else if 65 \<le> n \<and> n \<le> 70 then Some (n - 55)
         else None)"

definition hex4 :: "bytes \<Rightarrow> nat option" where
  "hex4 bs =
     (case bs of
        a # b # c # d # _ \<Rightarrow>
          (case (hex_val a, hex_val b, hex_val c, hex_val d) of
             (Some x, Some y, Some z, Some w) \<Rightarrow> Some (((x * 16 + y) * 16 + z) * 16 + w)
           | _ \<Rightarrow> None)
      | _ \<Rightarrow> None)"

text \<open>The UTF-8 encoding of a code point, for \<^verbatim>\<open>\uXXXX\<close> escapes.\<close>

definition utf8_encode :: "nat \<Rightarrow> bytes" where
  "utf8_encode cp =
     (if cp < 0x80 then [char_of cp]
      else if cp < 0x800 then [char_of (0xC0 + cp div 64), char_of (0x80 + cp mod 64)]
      else if cp < 0x10000
        then [char_of (0xE0 + cp div 4096), char_of (0x80 + cp div 64 mod 64),
              char_of (0x80 + cp mod 64)]
      else [char_of (0xF0 + cp div 262144), char_of (0x80 + cp div 4096 mod 64),
            char_of (0x80 + cp div 64 mod 64), char_of (0x80 + cp mod 64)])"

text \<open>
  \<open>utf8_len bs\<close> is the length of the well-formed UTF-8 sequence \<open>bs\<close> starts with, and 0
  when it starts with none: no overlong form, no surrogate, nothing above \<^verbatim>\<open>U+10FFFF\<close>.
\<close>

definition in_range :: "char \<Rightarrow> nat \<Rightarrow> nat \<Rightarrow> bool" where
  "in_range c lo hi \<longleftrightarrow> lo \<le> of_char c \<and> (of_char c :: nat) \<le> hi"

definition utf8_len :: "bytes \<Rightarrow> nat" where
  "utf8_len bs =
     (case bs of
        [] \<Rightarrow> 0
      | b0 # r \<Rightarrow>
          if in_range b0 0x00 0x7F then 1
          else if in_range b0 0xC2 0xDF
            then (case r of
                    b1 # _ \<Rightarrow> if in_range b1 0x80 0xBF then 2 else 0
                  | _ \<Rightarrow> 0)
          else if in_range b0 0xE0 0xEF
            then (case r of
                    b1 # b2 # _ \<Rightarrow>
                      if in_range b1 (if in_range b0 0xE0 0xE0 then 0xA0 else 0x80)
                           (if in_range b0 0xED 0xED then 0x9F else 0xBF)
                         \<and> in_range b2 0x80 0xBF
                      then 3 else 0
                  | _ \<Rightarrow> 0)
          else if in_range b0 0xF0 0xF4
            then (case r of
                    b1 # b2 # b3 # _ \<Rightarrow>
                      if in_range b1 (if in_range b0 0xF0 0xF0 then 0x90 else 0x80)
                           (if in_range b0 0xF4 0xF4 then 0x8F else 0xBF)
                         \<and> in_range b2 0x80 0xBF \<and> in_range b3 0x80 0xBF
                      then 4 else 0
                  | _ \<Rightarrow> 0)
          else 0)"

text \<open>
  \<open>parse_escape\<close> reads what follows a backslash: the decoded bytes and the number of
  characters read. \<open>parse_string_body\<close> reads a string after its opening quote: the
  string and the text after the closing quote.
\<close>

definition parse_escape :: "bytes \<Rightarrow> (bytes \<times> nat) option" where
  "parse_escape cs =
     (case cs of
        [] \<Rightarrow> None
      | e # r \<Rightarrow>
          if e = CHR 0x22 then Some ([CHR 0x22], 1)
          else if e = CHR 0x5C then Some ([CHR 0x5C], 1)
          else if e = CHR ''/'' then Some ([CHR ''/''], 1)
          else if e = CHR ''b'' then Some ([CHR 0x08], 1)
          else if e = CHR ''f'' then Some ([CHR 0x0C], 1)
          else if e = CHR ''n'' then Some ([CHR 0x0A], 1)
          else if e = CHR ''r'' then Some ([CHR 0x0D], 1)
          else if e = CHR ''t'' then Some ([CHR 0x09], 1)
          else if e = CHR ''u''
            then (case hex4 r of
                    None \<Rightarrow> None
                  | Some u \<Rightarrow>
                      if 0xDC00 \<le> u \<and> u \<le> 0xDFFF then None
                      else if 0xD800 \<le> u \<and> u \<le> 0xDBFF
                        then (case drop 4 r of
                                b # v # r2 \<Rightarrow>
                                  if b = CHR 0x5C \<and> v = CHR ''u''
                                  then (case hex4 r2 of
                                          None \<Rightarrow> None
                                        | Some l \<Rightarrow>
                                            if 0xDC00 \<le> l \<and> l \<le> 0xDFFF
                                            then Some (utf8_encode
                                                   (0x10000 + (u - 0xD800) * 1024 + (l - 0xDC00)),
                                                   11)
                                            else None)
                                  else None
                              | _ \<Rightarrow> None)
                      else Some (utf8_encode u, 5))
          else None)"

fun parse_string_body :: "bytes \<Rightarrow> (string \<times> bytes) option" where
  "parse_string_body [] = None"
| "parse_string_body (c # cs) =
     (if c = CHR 0x22 then Some ([], cs)
      else if c = CHR 0x5C
        then (case parse_escape cs of
                None \<Rightarrow> None
              | Some (out, k) \<Rightarrow>
                  (case parse_string_body (drop k cs) of
                     None \<Rightarrow> None
                   | Some (s, r) \<Rightarrow> Some (out @ s, r)))
      else if (of_char c :: nat) < 0x20 then None
      else (case utf8_len (c # cs) of
              0 \<Rightarrow> None
            | Suc k \<Rightarrow>
                (case parse_string_body (drop k cs) of
                   None \<Rightarrow> None
                 | Some (s, r) \<Rightarrow> Some (c # take k cs @ s, r))))"

text \<open>
  Values nest, so the three mutually recursive readers carry fuel: each call spends one
  unit, and \<open>json_loads\<close> starts with the length of the text, which no nesting or member
  count of that text exceeds. A reader returns the value and the rest of the text.
  \<open>parse_elements\<close> and \<open>parse_members\<close> start at an element or a key, after the opening
  bracket and whitespace.
\<close>

fun parse_value :: "nat \<Rightarrow> bytes \<Rightarrow> (json \<times> bytes) option"
  and parse_elements :: "nat \<Rightarrow> bytes \<Rightarrow> (json list \<times> bytes) option"
  and parse_members :: "nat \<Rightarrow> bytes \<Rightarrow> ((string \<times> json) list \<times> bytes) option" where
  "parse_value 0 bs = None"
| "parse_value (Suc n) bs =
     (case bs of
        [] \<Rightarrow> None
      | c # r \<Rightarrow>
          if c = CHR ''{''
            then (case skip_ws r of
                    [] \<Rightarrow> None
                  | d # r' \<Rightarrow>
                      if d = CHR ''}'' then Some (JObj [], r')
                      else (case parse_members n (skip_ws r) of
                              None \<Rightarrow> None
                            | Some (ms, r'') \<Rightarrow> Some (JObj ms, r'')))
          else if c = CHR ''[''
            then (case skip_ws r of
                    [] \<Rightarrow> None
                  | d # r' \<Rightarrow>
                      if d = CHR '']'' then Some (JArr [], r')
                      else (case parse_elements n (skip_ws r) of
                              None \<Rightarrow> None
                            | Some (vs, r'') \<Rightarrow> Some (JArr vs, r'')))
          else if c = CHR 0x22
            then (case parse_string_body r of
                    None \<Rightarrow> None
                  | Some (s, r') \<Rightarrow> Some (JStr s, r'))
          else if c = CHR ''-'' \<or> is_digit c then parse_number bs
          else if take 4 bs = ''true'' then Some (JBool True, drop 4 bs)
          else if take 5 bs = ''false'' then Some (JBool False, drop 5 bs)
          else if take 4 bs = ''null'' then Some (JNull, drop 4 bs)
          else None)"
| "parse_elements 0 bs = None"
| "parse_elements (Suc n) bs =
     (case parse_value n bs of
        None \<Rightarrow> None
      | Some (v, r) \<Rightarrow>
          (case skip_ws r of
             [] \<Rightarrow> None
           | c # r' \<Rightarrow>
               if c = CHR '',''
                 then (case parse_elements n (skip_ws r') of
                         None \<Rightarrow> None
                       | Some (vs, r'') \<Rightarrow> Some (v # vs, r''))
               else if c = CHR '']'' then Some ([v], r')
               else None))"
| "parse_members 0 bs = None"
| "parse_members (Suc n) bs =
     (case bs of
        [] \<Rightarrow> None
      | q # r \<Rightarrow>
          if q = CHR 0x22
          then (case parse_string_body r of
                  None \<Rightarrow> None
                | Some (k, r1) \<Rightarrow>
                    (case skip_ws r1 of
                       [] \<Rightarrow> None
                     | d # r2 \<Rightarrow>
                         if d = CHR '':''
                         then (case parse_value n (skip_ws r2) of
                                 None \<Rightarrow> None
                               | Some (v, r3) \<Rightarrow>
                                   (case skip_ws r3 of
                                      [] \<Rightarrow> None
                                    | e # r4 \<Rightarrow>
                                        if e = CHR '',''
                                          then (case parse_members n (skip_ws r4) of
                                                  None \<Rightarrow> None
                                                | Some (ms, r5) \<Rightarrow> Some ((k, v) # ms, r5))
                                        else if e = CHR ''}'' then Some ([(k, v)], r4)
                                        else None))
                         else None))
          else None)"

text \<open>A whole text is one value, with whitespace around it and nothing else.\<close>

definition json_loads :: "bytes \<Rightarrow> json option" where
  "json_loads bs =
     (case parse_value (length bs) (skip_ws bs) of
        None \<Rightarrow> None
      | Some (v, r) \<Rightarrow> if skip_ws r = [] then Some v else None)"

text \<open>A Python \<^verbatim>\<open>str\<close> is well-formed text: these are the byte lists that stand for one.\<close>

fun valid_utf8 :: "bytes \<Rightarrow> bool" where
  "valid_utf8 [] = True"
| "valid_utf8 (c # cs) = (case utf8_len (c # cs) of 0 \<Rightarrow> False | Suc k \<Rightarrow> valid_utf8 (drop k cs))"

section \<open>The envelope (swarm/inbox.py)\<close>

text \<open>
  \<^verbatim>\<open>SwarmIntent = Literal["control", "trigger"]\<close> and the struct \<^verbatim>\<open>SwarmEnvelope\<close>, declared
  \<^verbatim>\<open>kw_only=True, forbid_unknown_fields=True\<close>. Its fields carry the prefix \<open>env_\<close>.
  \<^verbatim>\<open>version\<close>, \<^verbatim>\<open>thread_id\<close>, \<^verbatim>\<open>origin_agent\<close> and \<^verbatim>\<open>created_at\<close> have defaults; the other
  four are required.
\<close>

datatype SwarmIntent = Control | Trigger

definition intent_name :: "SwarmIntent \<Rightarrow> string" where
  "intent_name i = (case i of Control \<Rightarrow> ''control'' | Trigger \<Rightarrow> ''trigger'')"

record SwarmEnvelope =
  env_version :: int
  env_event_id :: string
  env_intent :: SwarmIntent
  env_chat_id :: int
  env_thread_id :: "int option"
  env_text :: string
  env_origin_agent :: "string option"
  env_created_at :: "string option"

text \<open>
  \<^verbatim>\<open>msgspec.to_builtins(envelope)\<close>: the dict of the fields in declaration order, \<^verbatim>\<open>None\<close> as
  \<^verbatim>\<open>null\<close>. \<^verbatim>\<open>msgspec.json.encode(envelope)\<close> writes this object.
\<close>

definition json_opt_int :: "int option \<Rightarrow> json" where
  "json_opt_int v = (case v of None \<Rightarrow> JNull | Some i \<Rightarrow> JInt i)"

definition json_opt_str :: "string option \<Rightarrow> json" where
  "json_opt_str v = (case v of None \<Rightarrow> JNull | Some s \<Rightarrow> JStr s)"

definition to_builtins :: "SwarmEnvelope \<Rightarrow> json" where
  "to_builtins e =
     JObj [(''version'', JInt (env_version e)),
           (''event_id'', JStr (env_event_id e)),
           (''intent'', JStr (intent_name (env_intent e))),
           (''chat_id'', JInt (env_chat_id e)),
           (''thread_id'', json_opt_int (env_thread_id e)),
           (''text'', JStr (env_text e)),
           (''origin_agent'', json_opt_str (env_origin_agent e)),
           (''created_at'', json_opt_str (env_created_at e))]"

text \<open>
  \<^verbatim>\<open>msgspec.json.encode(envelope)\<close>, and the text it returns when it does not raise.
\<close>

definition encode_envelope :: "SwarmEnvelope \<Rightarrow> error + bytes" where
  "encode_envelope e = json_encode (to_builtins e)"

definition envelope_text :: "SwarmEnvelope \<Rightarrow> bytes" where
  "envelope_text e = json_text (to_builtins e)"

text \<open>
  Decoding to the struct. Every member of the object must name a field
  (\<^verbatim>\<open>forbid_unknown_fields=True\<close>) and hold a value of the field's type: an integer
  literal for \<^verbatim>\<open>int\<close> (strict mode: no float, no boolean, no string), \<^verbatim>\<open>null\<close> as well
  for an optional field, one of the two literals for \<^verbatim>\<open>intent\<close>. When a key repeats the
  last value stands. A required field that is missing is an error; a missing optional
  field takes its default.
\<close>

definition known_fields :: "string list" where
  "known_fields = [''version'', ''event_id'', ''intent'', ''chat_id'', ''thread_id'', ''text'',
                   ''origin_agent'', ''created_at'']"

definition as_int :: "json \<Rightarrow> int option" where
  "as_int j = (case j of JInt i \<Rightarrow> Some i | _ \<Rightarrow> None)"

definition as_str :: "json \<Rightarrow> string option" where
  "as_str j = (case j of JStr s \<Rightarrow> Some s | _ \<Rightarrow> None)"

definition as_opt_int :: "json \<Rightarrow> int option option" where
  "as_opt_int j = (case j of JNull \<Rightarrow> Some None | JInt i \<Rightarrow> Some (Some i) | _ \<Rightarrow> None)"

definition as_opt_str :: "json \<Rightarrow> string option option" where
  "as_opt_str j = (case j of JNull \<Rightarrow> Some None | JStr s \<Rightarrow> Some (Some s) | _ \<Rightarrow> None)"

definition as_intent :: "json \<Rightarrow> SwarmIntent option" where
  "as_intent j =
     (case j of
        JStr s \<Rightarrow> if s = ''control'' then Some Control
                  else if s = ''trigger'' then Some Trigger
                  else None
      | _ \<Rightarrow> None)"

definition field_ok :: "string \<times> json \<Rightarrow> bool" where
  "field_ok m =
     (let k = fst m; v = snd m
      in if k \<notin> set known_fields then False
         else if k = ''version'' \<or> k = ''chat_id'' then as_int v \<noteq> None
         else if k = ''event_id'' \<or> k = ''text'' then as_str v \<noteq> None
         else if k = ''intent'' then as_intent v \<noteq> None
         else if k = ''thread_id'' then as_opt_int v \<noteq> None
         else as_opt_str v \<noteq> None)"

definition field :: "(string \<times> json) list \<Rightarrow> string \<Rightarrow> json option" where
  "field ms k = map_of (rev ms) k"

definition envelope_of_json :: "json \<Rightarrow> error + SwarmEnvelope" where
  "envelope_of_json j =
     (case j of
        JObj ms \<Rightarrow>
          if \<not> list_all field_ok ms then Inl DecodeError
          else (case (Option.bind (field ms ''event_id'') as_str,
                      Option.bind (field ms ''intent'') as_intent,
                      Option.bind (field ms ''chat_id'') as_int,
                      Option.bind (field ms ''text'') as_str) of
                  (Some event_id, Some intent, Some chat_id, Some txt) \<Rightarrow>
                    Inr \<lparr>env_version =
                           (case Option.bind (field ms ''version'') as_int of
                              None \<Rightarrow> 1 | Some v \<Rightarrow> v),
                         env_event_id = event_id,
                         env_intent = intent,
                         env_chat_id = chat_id,
                         env_thread_id =
                           (case Option.bind (field ms ''thread_id'') as_opt_int of
                              None \<Rightarrow> None | Some v \<Rightarrow> v),
                         env_text = txt,
                         env_origin_agent =
                           (case Option.bind (field ms ''origin_agent'') as_opt_str of
                              None \<Rightarrow> None | Some v \<Rightarrow> v),
                         env_created_at =
                           (case Option.bind (field ms ''created_at'') as_opt_str of
                              None \<Rightarrow> None | Some v \<Rightarrow> v)\<rparr>
                | _ \<Rightarrow> Inl DecodeError)
      | _ \<Rightarrow> Inl DecodeError)"

definition decode_envelope :: "bytes \<Rightarrow> error + SwarmEnvelope" where
  "decode_envelope bs =
     (case json_loads bs of None \<Rightarrow> Inl DecodeError | Some j \<Rightarrow> envelope_of_json j)"

text \<open>
  A valid envelope: well-typed fields, that is, every string field is well-formed text
  and every integer field is within the limit of the codec.
\<close>

definition valid_opt :: "string option \<Rightarrow> bool" where
  "valid_opt v = (case v of None \<Rightarrow> True | Some s \<Rightarrow> valid_utf8 s)"

definition int_opt_ok :: "int option \<Rightarrow> bool" where
  "int_opt_ok v = (case v of None \<Rightarrow> True | Some i \<Rightarrow> int_ok i)"

definition valid_envelope :: "SwarmEnvelope \<Rightarrow> bool" where
  "valid_envelope e \<longleftrightarrow>
     valid_utf8 (env_event_id e) \<and> valid_utf8 (env_text e)
     \<and> valid_opt (env_origin_agent e) \<and> valid_opt (env_created_at e)
     \<and> int_ok (env_version e) \<and> int_ok (env_chat_id e) \<and> int_opt_ok (env_thread_id e)"

section \<open>The inbox tailer (swarm/inbox.py)\<close>

text \<open>
  \<^verbatim>\<open>bytes.strip()\<close> removes leading and trailing ASCII whitespace: tab, line feed, vertical
  tab, form feed, carriage return and space.
\<close>

definition ascii_space :: "char \<Rightarrow> bool" where
  "ascii_space c \<longleftrightarrow> in_range c 0x09 0x0D \<or> c = CHR '' ''"

definition bytes_strip :: "bytes \<Rightarrow> bytes" where
  "bytes_strip bs = rev (dropWhile ascii_space (rev (dropWhile ascii_space bs)))"

text \<open>
  \<^verbatim>\<open>not envelope.text.strip()\<close> holds when the text is empty or all whitespace.
  \<^verbatim>\<open>str.strip()\<close> removes the characters Python counts as whitespace: \<^verbatim>\<open>U+0009\<close> to
  \<^verbatim>\<open>U+000D\<close>, \<^verbatim>\<open>U+001C\<close> to \<^verbatim>\<open>U+0020\<close>, \<^verbatim>\<open>U+0085\<close>, \<^verbatim>\<open>U+00A0\<close>, \<^verbatim>\<open>U+1680\<close>,
  \<^verbatim>\<open>U+2000\<close> to \<^verbatim>\<open>U+200A\<close>, \<^verbatim>\<open>U+2028\<close>, \<^verbatim>\<open>U+2029\<close>, \<^verbatim>\<open>U+202F\<close>, \<^verbatim>\<open>U+205F\<close> and
  \<^verbatim>\<open>U+3000\<close>. \<open>space_len s\<close> is the length of the UTF-8 form of such a character at the
  head of \<open>s\<close>, and 0 when there is none.
\<close>

definition space_len :: "string \<Rightarrow> nat" where
  "space_len s =
     (case s of
        [] \<Rightarrow> 0
      | c # r \<Rightarrow>
          if in_range c 0x09 0x0D \<or> in_range c 0x1C 0x20 then 1
          else if c = CHR 0xC2
            then (case r of
                    d # _ \<Rightarrow> if d = CHR 0x85 \<or> d = CHR 0xA0 then 2 else 0
                  | [] \<Rightarrow> 0)
          else if c = CHR 0xE1 then (if take 2 r = [CHR 0x9A, CHR 0x80] then 3 else 0)
          else if c = CHR 0xE2
            then (case r of
                    d # e # _ \<Rightarrow>
                      if d = CHR 0x80
                         \<and> (in_range e 0x80 0x8A \<or> e = CHR 0xA8 \<or> e = CHR 0xA9 \<or> e = CHR 0xAF)
                      then 3
                      else if d = CHR 0x81 \<and> e = CHR 0x9F then 3
                      else 0
                  | _ \<Rightarrow> 0)
          else if c = CHR 0xE3 then (if take 2 r = [CHR 0x80, CHR 0x80] then 3 else 0)
          else 0)"

fun str_blank :: "string \<Rightarrow> bool" where
  "str_blank [] = True"
| "str_blank (c # cs) = (case space_len (c # cs) of 0 \<Rightarrow> False | Suc k \<Rightarrow> str_blank (drop k cs))"

text \<open>
  \<^verbatim>\<open>TelegramIncomingMessage\<close> is declared in another module (telegram/types.py); the record has the
  fields \<^verbatim>\<open>_to_synthetic_message\<close> sets, with the prefix \<open>msg_\<close>.
\<close>

record TelegramIncomingMessage =
  msg_transport :: string
  msg_chat_id :: int
  msg_message_id :: int
  msg_text :: string
  msg_reply_to_message_id :: "int option"
  msg_reply_to_text :: "string option"
  msg_sender_id :: "int option"
  msg_thread_id :: "int option"
  msg_raw :: json
  msg_ingress_source :: string
  msg_ingress_intent :: string
  msg_origin_agent :: "string option"

text \<open>
  What the code logs, and what the generator \<^verbatim>\<open>poll_swarm_inbox\<close> does in order: yield a
  message, log a record, sleep. The warning of a failed decode carries the path; the text
  of the exception is left out.
\<close>

datatype log_record =
    Debug_skip_empty_text string int "int option"
  | Warning_decode_failed string

datatype event = Yield TelegramIncomingMessage | Log log_record | Sleep real

text \<open>
  \<^verbatim>\<open>_to_synthetic_message\<close>: the records logged and the message, \<^verbatim>\<open>None\<close> when the envelope
  is dropped.
\<close>

definition to_synthetic_message ::
  "SwarmEnvelope \<Rightarrow> int \<Rightarrow> log_record list \<times> TelegramIncomingMessage option" where
  "to_synthetic_message envelope message_id =
     (if env_intent envelope \<noteq> Trigger then ([], None)
      else if str_blank (env_text envelope)
        then ([Debug_skip_empty_text (env_event_id envelope) (env_chat_id envelope)
                 (env_thread_id envelope)],
              None)
      else ([],
            Some \<lparr>msg_transport = ''telegram'',
                  msg_chat_id = env_chat_id envelope,
                  msg_message_id = message_id,
                  msg_text = env_text envelope,
                  msg_reply_to_message_id = None,
                  msg_reply_to_text = None,
                  msg_sender_id = None,
                  msg_thread_id = env_thread_id envelope,
                  msg_raw = JObj [(''swarm'', to_builtins envelope)],
                  msg_ingress_source = ''swarm'',
                  msg_ingress_intent = intent_name (env_intent envelope),
                  msg_origin_agent = env_origin_agent envelope\<rparr>))"

text \<open>
  \<^verbatim>\<open>_read_chunk\<close>. The file at the path is \<open>None\<close> when it does not exist (opening it
  raises \<^verbatim>\<open>FileNotFoundError\<close>) and its bytes otherwise.
\<close>

definition read_chunk :: "bytes option \<Rightarrow> nat \<Rightarrow> error + bytes \<times> nat" where
  "read_chunk file offset =
     (case file of
        None \<Rightarrow> Inl FileNotFoundError
      | Some content \<Rightarrow>
          (let size = length content;
               offset' = (if size < offset then 0 else offset);
               chunk = drop offset' content
           in Inr (chunk, offset' + length chunk)))"

text \<open>
  \<^verbatim>\<open>payload.split(b"\n")\<close>: the segments between line feeds, never an empty list.
\<close>

fun split_newline :: "bytes \<Rightarrow> bytes list" where
  "split_newline [] = [[]]"
| "split_newline (c # cs) =
     (if c = CHR 0x0A then [] # split_newline cs
      else (case split_newline cs of
              [] \<Rightarrow> [[c]]
            | l # ls \<Rightarrow> (c # l) # ls))"

record SwarmIngressConfig =
  inbox_path :: string
  poll_interval_s :: real

text \<open>
  The \<^verbatim>\<open>for line in lines\<close> loop of \<^verbatim>\<open>poll_swarm_inbox\<close>: the events in order and the next
  message id after the loop. \<^verbatim>\<open>except Exception\<close> catches every error of the decoder.
\<close>

fun process_lines :: "string \<Rightarrow> bytes list \<Rightarrow> int \<Rightarrow> event list \<times> int" where
  "process_lines path [] next_message_id = ([], next_message_id)"
| "process_lines path (line # lines) next_message_id =
     (let raw_line = bytes_strip line
      in if raw_line = [] then process_lines path lines next_message_id
         else (case decode_envelope raw_line of
                 Inl exc \<Rightarrow>
                   (let (events, n) = process_lines path lines next_message_id
                    in (Log (Warning_decode_failed path) # events, n))
               | Inr envelope \<Rightarrow>
                   (case to_synthetic_message envelope next_message_id of
                      (logs, None) \<Rightarrow>
                        (let (events, n) = process_lines path lines next_message_id
                         in (map Log logs @ events, n))
                    | (logs, Some message) \<Rightarrow>
                        (let (events, n) = process_lines path lines (next_message_id - 1)
                         in (map Log logs @ Yield message # events, n)))))"

text \<open>
  The local variables of \<^verbatim>\<open>poll_swarm_inbox\<close>, and one turn of its \<^verbatim>\<open>while True\<close> loop,
  given the file the turn finds at \<^verbatim>\<open>cfg.inbox_path\<close>. An exception other than
  \<^verbatim>\<open>FileNotFoundError\<close> would leave the generator: that is the result \<open>Inl\<close>.
\<close>

record poll_state =
  st_offset :: nat
  st_remainder :: bytes
  st_next_message_id :: int

definition poll_cycle ::
  "SwarmIngressConfig \<Rightarrow> bytes option \<Rightarrow> poll_state \<Rightarrow> error + event list \<times> poll_state" where
  "poll_cycle cfg file st =
     (case read_chunk file (st_offset st) of
        Inl exc \<Rightarrow>
          if exc = FileNotFoundError
          then Inr ([Sleep (poll_interval_s cfg)], st\<lparr>st_offset := 0, st_remainder := []\<rparr>)
          else Inl exc
      | Inr (chunk, offset) \<Rightarrow>
          if chunk \<noteq> []
          then (let payload = st_remainder st @ chunk;
                    lines = split_newline payload;
                    remainder = (if lines \<noteq> [] then last lines else []);
                    (events, next_message_id) =
                      process_lines (inbox_path cfg) (butlast lines) (st_next_message_id st)
                in Inr (events @ [Sleep (poll_interval_s cfg)],
                        \<lparr>st_offset = offset, st_remainder = remainder,
                         st_next_message_id = next_message_id\<rparr>))
          else Inr ([Sleep (poll_interval_s cfg)], st\<lparr>st_offset := offset\<rparr>))"

text \<open>
  The loop never ends by itself. \<open>poll_swarm_inbox cfg files\<close> is its run over as many
  turns as \<open>files\<close> has entries, the entries being what the turns find at the path.
\<close>

fun poll_cycles ::
  "SwarmIngressConfig \<Rightarrow> bytes option list \<Rightarrow> poll_state \<Rightarrow> error + event list \<times> poll_state" where
  "poll_cycles cfg [] st = Inr ([], st)"
| "poll_cycles cfg (file # files) st =
     (case poll_cycle cfg file st of
        Inl exc \<Rightarrow> Inl exc
      | Inr (events, st') \<Rightarrow>
          (case poll_cycles cfg files st' of
             Inl exc \<Rightarrow> Inl exc
           | Inr (events', st'') \<Rightarrow> Inr (events @ events', st'')))"

definition initial_state :: poll_state where
  "initial_state = \<lparr>st_offset = 0, st_remainder = [], st_next_message_id = - 1\<rparr>"

definition poll_swarm_inbox ::
  "SwarmIngressConfig \<Rightarrow> bytes option list \<Rightarrow> error + event list \<times> poll_state" where
  "poll_swarm_inbox cfg files = poll_cycles cfg files initial_state"

text \<open>The messages a consumer of the generator receives.\<close>

fun yielded :: "event list \<Rightarrow> TelegramIncomingMessage list" where
  "yielded [] = []"
| "yielded (Yield m # es) = m # yielded es"
| "yielded (_ # es) = yielded es"

text \<open>
  \<^verbatim>\<open>append_swarm_envelope\<close>: one encoded line appended to the file, created when missing.
  The line is encoded before the file is opened: when the encoder raises, the file is as
  it was.
\<close>

definition append_swarm_envelope :: "bytes option \<Rightarrow> SwarmEnvelope \<Rightarrow> error + bytes option" where
  "append_swarm_envelope file envelope =
     (case encode_envelope envelope of
        Inl exc \<Rightarrow> Inl exc
      | Inr encoded \<Rightarrow>
          (let line = encoded @ [CHR 0x0A]
           in case file of None \<Rightarrow> Inr (Some line) | Some content \<Rightarrow> Inr (Some (content @ line))))"

subsection \<open>Notions the theorems are stated with\<close>

text \<open>The events of a run without its sleeps.\<close>

fun records :: "event list \<Rightarrow> event list" where
  "records [] = []"
| "records (Sleep _ # es) = records es"
| "records (e # es) = e # records es"

text \<open>A file that is only appended to: each content found is a prefix of the next.\<close>

definition is_prefix :: "bytes \<Rightarrow> bytes \<Rightarrow> bool" where
  "is_prefix c d \<longleftrightarrow> take (length c) d = c"

fun append_only :: "bytes list \<Rightarrow> bool" where
  "append_only [] = True"
| "append_only [c] = True"
| "append_only (c # d # ds) = (is_prefix c d \<and> append_only (d # ds))"

text \<open>
  The state of a tailer that has read all of \<open>content\<close>: the offset at its end, the
  trailing fragment pending, the message ids of its complete lines used up.
\<close>

definition tailed :: "string \<Rightarrow> bytes \<Rightarrow> poll_state" where
  "tailed path content =
     \<lparr>st_offset = length content,
      st_remainder = last (split_newline content),
      st_next_message_id =
        snd (process_lines path (butlast (split_newline content)) (- 1))\<rparr>"

definition descending :: "int \<Rightarrow> nat \<Rightarrow> int list" where
  "descending n k = map (\<lambda>i. n - int i) [0..<k]"

text \<open>
  The envelope a complete line of the file delivers, if any: the line is not blank, it
  decodes, its intent is trigger and its text is not blank.
\<close>

definition deliverable :: "bytes \<Rightarrow> SwarmEnvelope option" where
  "deliverable line =
     (if bytes_strip line = [] then None
      else (case decode_envelope (bytes_strip line) of
              Inl _ \<Rightarrow> None
            | Inr e \<Rightarrow> if env_intent e = Trigger \<and> \<not> str_blank (env_text e) then Some e else None))"

definition deliverable_envelope :: "SwarmEnvelope \<Rightarrow> bool" where
  "deliverable_envelope e \<longleftrightarrow> valid_envelope e \<and> env_intent e = Trigger \<and> \<not> str_blank (env_text e)"

text \<open>
  The messages \<^verbatim>\<open>_to_synthetic_message\<close> makes of a list of envelopes when it is given
  the ids \<open>n\<close>, \<open>n - 1\<close>, \<open>n - 2\<close> and so on.
\<close>

fun translated :: "int \<Rightarrow> SwarmEnvelope list \<Rightarrow> TelegramIncomingMessage option list" where
  "translated n [] = []"
| "translated n (e # es) = snd (to_synthetic_message e n) # translated (n - 1) es"

text \<open>Values and members as the encoder writes them for an envelope.\<close>

definition scalar :: "json \<Rightarrow> bool" where
  "scalar v = (case v of JNull \<Rightarrow> True | JInt i \<Rightarrow> int_ok i | JStr s \<Rightarrow> valid_utf8 s | _ \<Rightarrow> False)"

definition flat :: "json \<Rightarrow> bool" where
  "flat v = (case v of JNull \<Rightarrow> True | JInt _ \<Rightarrow> True | JStr _ \<Rightarrow> True | _ \<Rightarrow> False)"

definition render_member :: "string \<times> json \<Rightarrow> bytes" where
  "render_member m = json_string (fst m) @ '':'' @ json_text (snd m)"

subsection \<open>Concrete inputs\<close>

definition demo_cfg :: SwarmIngressConfig where
  "demo_cfg = \<lparr>inbox_path = ''inbox.jsonl'', poll_interval_s = 1 / 100\<rparr>"

definition demo_a :: SwarmEnvelope where
  "demo_a =
     \<lparr>env_version = 1, env_event_id = ''a1'', env_intent = Trigger, env_chat_id = 123,
      env_thread_id = Some 19, env_text = ''first'', env_origin_agent = Some ''manager'',
      env_created_at = None\<rparr>"

definition demo_b :: SwarmEnvelope where
  "demo_b = demo_a\<lparr>env_event_id := ''b2'', env_text := ''second''\<rparr>"

definition demo_c :: SwarmEnvelope where
  "demo_c = demo_a\<lparr>env_event_id := ''c3'', env_text := ''third''\<rparr>"

definition demo_control :: SwarmEnvelope where
  "demo_control = demo_a\<lparr>env_intent := Control, env_text := ''control only''\<rparr>"

definition demo_blank :: SwarmEnvelope where
  "demo_blank = demo_a\<lparr>env_text := [CHR '' '', CHR 0x09, CHR 0xC2, CHR 0xA0]\<rparr>"

text \<open>A text with a quote, a line feed, a control character and a letter beyond ASCII.\<close>

definition demo_quoted :: SwarmEnvelope where
  "demo_quoted =
     demo_a\<lparr>env_text := [CHR ''a'', CHR 0x22, CHR 0x0A, CHR 0x01, CHR 0xC3, CHR 0xA9],
            env_thread_id := None, env_chat_id := - 1001\<rparr>"

text \<open>
  The queue file after the writer appended \<open>demo_a\<close> and was cut off 20 bytes into
  \<open>demo_b\<close>, and the file once \<open>demo_b\<close> is complete and \<open>demo_c\<close> appended.
\<close>

definition demo_partial :: bytes where
  "demo_partial = envelope_text demo_a @ CHR 0x0A # take 20 (envelope_text demo_b)"

definition demo_complete :: bytes where
  "demo_complete =
     envelope_text demo_a @ CHR 0x0A # envelope_text demo_b
       @ CHR 0x0A # envelope_text demo_c @ [CHR 0x0A]"

text \<open>
  A queue file of four records: a control record, \<open>demo_a\<close>, a trigger record with blank
  text, and \<open>demo_b\<close>.
\<close>

definition demo_mixed :: bytes where
  "demo_mixed =
     envelope_text demo_control @ CHR 0x0A # envelope_text demo_a
       @ CHR 0x0A # envelope_text demo_blank @ CHR 0x0A # envelope_text demo_b @ [CHR 0x0A]"

text \<open>A line with a field the schema does not know.\<close>

definition demo_unknown :: bytes where
  "demo_unknown =
     json_text (JObj [(''event_id'', JStr ''x''), (''intent'', JStr ''trigger''),
                       (''chat_id'', JInt 5), (''text'', JStr ''hi''), (''extra'', JInt 1)])"

section \<open>Topic reconciliation (swarm/service.py)\<close>

text \<open>
  \<^verbatim>\<open>RunContext\<close>, \<^verbatim>\<open>TopicThreadSnapshot\<close>, \<^verbatim>\<open>TopicStateStore\<close> and
  \<^verbatim>\<open>TelegramClient\<close> are imported by service.py from other modules of the package.
  The records below carry exactly the fields service.py reads or writes; every field of a
  record has a prefix naming the record, because several classes share field names
  (\<^verbatim>\<open>chat_id\<close>, \<^verbatim>\<open>thread_id\<close>, \<^verbatim>\<open>branch\<close>).
\<close>

record RunContext =
  ctx_project :: "string option"
  ctx_branch :: "string option"

text \<open>
  \<^verbatim>\<open>sessions\<close> is a dict keyed by engine name; service.py only sorts its keys. It is an
  association list here.
\<close>

record TopicThreadSnapshot =
  snap_chat_id :: int
  snap_thread_id :: int
  snap_context :: "RunContext option"
  snap_sessions :: "(string \<times> string) list"
  snap_topic_title :: "string option"
  snap_default_engine :: "string option"

record TopicStatus =
  status_chat_id :: int
  status_thread_id :: int
  status_project :: "string option"
  status_branch :: "string option"
  status_topic_title :: "string option"
  status_default_engine :: "string option"
  status_sessions :: "string list"

record ForumTopic =
  message_thread_id :: int

text \<open>\<^verbatim>\<open>build_topic_title\<close>: \<^verbatim>\<open>if branch:\<close> is false for \<^verbatim>\<open>None\<close> and for the empty string.\<close>

definition build_topic_title :: "string \<Rightarrow> string option \<Rightarrow> string" where
  "build_topic_title project_alias branch =
     (case branch of
        None \<Rightarrow> project_alias
      | Some b \<Rightarrow> if b \<noteq> [] then project_alias @ '' @'' @ b else project_alias)"

text \<open>
  \<^verbatim>\<open>snapshot_to_status\<close>. \<^verbatim>\<open>project_aliases.get(project_key, project_key)\<close> falls back to
  the key; \<^verbatim>\<open>sorted(snapshot.sessions)\<close> sorts the keys of the dict.
\<close>

definition snapshot_to_status :: "TopicThreadSnapshot \<Rightarrow> (string \<rightharpoonup> string) \<Rightarrow> TopicStatus" where
  "snapshot_to_status snapshot project_aliases =
     (let project_key = (case snap_context snapshot of Some c \<Rightarrow> ctx_project c | None \<Rightarrow> None);
          project = (case project_key of
                       Some k \<Rightarrow> Some (case project_aliases k of Some a \<Rightarrow> a | None \<Rightarrow> k)
                     | None \<Rightarrow> None);
          branch = (case snap_context snapshot of Some c \<Rightarrow> ctx_branch c | None \<Rightarrow> None);
          sessions = sort (map fst (snap_sessions snapshot))
      in \<lparr>status_chat_id = snap_chat_id snapshot,
          status_thread_id = snap_thread_id snapshot,
          status_project = project,
          status_branch = branch,
          status_topic_title = snap_topic_title snapshot,
          status_default_engine = snap_default_engine snapshot,
          status_sessions = sessions\<rparr>)"

text \<open>
  The two collaborators are parameters of \<^verbatim>\<open>ensure_topic_thread\<close>. Each is a record of
  its methods; a method takes the state of the outside world (the chat platform and the
  persisted store, of any type \<^typ>\<open>'w\<close>) and returns its result with the new state.
  \<^verbatim>\<open>set_context\<close> and \<^verbatim>\<open>delete_thread\<close> return nothing the code reads. Collaborator
  calls are taken to return; service.py catches none of their exceptions.
\<close>

record 'w TelegramClient =
  edit_forum_topic :: "int \<Rightarrow> int \<Rightarrow> string \<Rightarrow> 'w \<Rightarrow> bool \<times> 'w"
  create_forum_topic :: "int \<Rightarrow> string \<Rightarrow> 'w \<Rightarrow> ForumTopic option \<times> 'w"

record 'w TopicStateStore =
  find_thread_for_context :: "int \<Rightarrow> RunContext \<Rightarrow> 'w \<Rightarrow> int option \<times> 'w"
  set_context :: "int \<Rightarrow> int \<Rightarrow> RunContext \<Rightarrow> string \<Rightarrow> 'w \<Rightarrow> 'w"
  get_thread :: "int \<Rightarrow> int \<Rightarrow> 'w \<Rightarrow> TopicThreadSnapshot option \<times> 'w"
  delete_thread :: "int \<Rightarrow> int \<Rightarrow> 'w \<Rightarrow> 'w"

text \<open>
  The collaborator calls a run makes, in the order it makes them, each with what the
  collaborator answered.
\<close>

datatype call =
    Find_thread_for_context int RunContext "int option"
  | Edit_forum_topic int int string bool
  | Set_context int int RunContext string
  | Get_thread int int "TopicThreadSnapshot option"
  | Delete_thread int int
  | Create_forum_topic int string "ForumTopic option"

fun is_create_forum_topic :: "call \<Rightarrow> bool" where
  "is_create_forum_topic (Create_forum_topic _ _ _) = True"
| "is_create_forum_topic _ = False"

text \<open>
  Lines 102 to 123 and lines 132 to 151 of service.py are the same code on
  \<^verbatim>\<open>existing_thread_id\<close> and on the new \<^verbatim>\<open>thread_id\<close>: bind when asked, read the
  snapshot back, synthesize one when the store has none, project it to a status.
\<close>

definition bind_and_report ::
  "'w TopicStateStore \<Rightarrow> int \<Rightarrow> int \<Rightarrow> RunContext \<Rightarrow> string \<Rightarrow> string \<Rightarrow> string \<Rightarrow> bool \<Rightarrow> 'w
     \<Rightarrow> TopicStatus \<times> call list \<times> 'w" where
  "bind_and_report store chat_id thread_id ctx title project_key project_alias bind_state w =
     (let (calls1, w1) =
            (if bind_state
             then ([Set_context chat_id thread_id ctx title],
                   set_context store chat_id thread_id ctx title w)
             else ([], w));
          (found, w2) = get_thread store chat_id thread_id w1;
          snapshot =
            (case found of
               Some s \<Rightarrow> s
             | None \<Rightarrow>
                 \<lparr>snap_chat_id = chat_id,
                  snap_thread_id = thread_id,
                  snap_context = (if bind_state then Some ctx else None),
                  snap_sessions = [],
                  snap_topic_title = Some title,
                  snap_default_engine = None\<rparr>);
          status = snapshot_to_status snapshot (Map.empty(project_key \<mapsto> project_alias))
      in (status, calls1 @ [Get_thread chat_id thread_id found], w2))"

text \<open>Lines 127 to 151: create the topic, or raise when the platform returns none.\<close>

definition create_and_report ::
  "'w TelegramClient \<Rightarrow> 'w TopicStateStore \<Rightarrow> int \<Rightarrow> RunContext \<Rightarrow> string \<Rightarrow> string \<Rightarrow> string
     \<Rightarrow> bool \<Rightarrow> 'w \<Rightarrow> (error + TopicStatus \<times> bool) \<times> call list \<times> 'w" where
  "create_and_report bot' store chat_id ctx title project_key project_alias bind_state w =
     (let (created_topic, w1) = create_forum_topic bot' chat_id title w
      in case created_topic of
           None \<Rightarrow>
             (Inl (RuntimeError ''failed to create telegram forum topic''),
              [Create_forum_topic chat_id title None], w1)
         | Some topic \<Rightarrow>
             (let thread_id = message_thread_id topic;
                  created = True;
                  (status, calls, w2) =
                    bind_and_report store chat_id thread_id ctx title project_key project_alias
                      bind_state w1
              in (Inr (status, created), Create_forum_topic chat_id title created_topic # calls, w2)))"

text \<open>
  \<^verbatim>\<open>ensure_topic_thread\<close>: the result (the raised error, or the status with the
  \<^verbatim>\<open>created\<close> flag), the collaborator calls made, and the state of the world afterwards.
\<close>

definition ensure_topic_thread ::
  "'w TelegramClient \<Rightarrow> 'w TopicStateStore \<Rightarrow> int \<Rightarrow> string \<Rightarrow> string \<Rightarrow> string option \<Rightarrow> bool
     \<Rightarrow> 'w \<Rightarrow> (error + TopicStatus \<times> bool) \<times> call list \<times> 'w" where
  "ensure_topic_thread bot' store chat_id project_key project_alias branch bind_state w =
     (let ctx = \<lparr>ctx_project = Some project_key, ctx_branch = branch\<rparr>;
          title = build_topic_title project_alias branch;
          (existing_thread_id, w1) = find_thread_for_context store chat_id ctx w;
          created = False
      in case existing_thread_id of
           Some existing \<Rightarrow>
             (let (renamed, w2) = edit_forum_topic bot' chat_id existing title w1
              in if renamed
                 then (let (status, calls, w3) =
                             bind_and_report store chat_id existing ctx title project_key
                               project_alias bind_state w2
                       in (Inr (status, created),
                           [Find_thread_for_context chat_id ctx existing_thread_id,
                            Edit_forum_topic chat_id existing title renamed] @ calls,
                           w3))
                 else (let w3 = delete_thread store chat_id existing w2;
                           (result, calls, w4) =
                             create_and_report bot' store chat_id ctx title project_key
                               project_alias bind_state w3
                       in (result,
                           [Find_thread_for_context chat_id ctx existing_thread_id,
                            Edit_forum_topic chat_id existing title renamed,
                            Delete_thread chat_id existing] @ calls,
                           w4)))
         | None \<Rightarrow>
             (let (result, calls, w2) =
                    create_and_report bot' store chat_id ctx title project_key project_alias
                      bind_state w1
              in (result, Find_thread_for_context chat_id ctx existing_thread_id # calls, w2)))"

text \<open>
  Calling \<^verbatim>\<open>ensure_topic_thread\<close> \<open>n\<close> times in a row with the same arguments: the
  results in call order, all collaborator calls, and the world after the last call.
\<close>

fun ensure_repeatedly ::
  "nat \<Rightarrow> 'w TelegramClient \<Rightarrow> 'w TopicStateStore \<Rightarrow> int \<Rightarrow> string \<Rightarrow> string \<Rightarrow> string option
     \<Rightarrow> bool \<Rightarrow> 'w \<Rightarrow> (error + TopicStatus \<times> bool) list \<times> call list \<times> 'w" where
  "ensure_repeatedly 0 bot' store chat_id project_key project_alias branch bind_state w =
     ([], [], w)"
| "ensure_repeatedly (Suc n) bot' store chat_id project_key project_alias branch bind_state w =
     (let (results, calls, w1) =
            ensure_repeatedly n bot' store chat_id project_key project_alias branch bind_state w;
          (result, calls', w2) =
            ensure_topic_thread bot' store chat_id project_key project_alias branch bind_state w1
      in (results @ [result], calls @ calls', w2))"

text \<open>What a caller reads off a result: the thread id of the status and the \<^verbatim>\<open>created\<close> flag.\<close>

definition outcome :: "error + TopicStatus \<times> bool \<Rightarrow> (int \<times> bool) option" where
  "outcome r = (case r of Inl _ \<Rightarrow> None | Inr (status, created) \<Rightarrow> Some (status_thread_id status, created))"

subsection \<open>A chat platform and a state store to run against\<close>

text \<open>
  Modelled from the spec: the chat-platform client (\<^verbatim>\<open>createForumTopic\<close>,
  \<^verbatim>\<open>editForumTopic\<close>) and the persisted topic-state store (\<^verbatim>\<open>findThreadForContext\<close>,
  \<^verbatim>\<open>setContext\<close>, \<^verbatim>\<open>getThread\<close>, \<^verbatim>\<open>deleteThread\<close>), whose code is in other
  modules of the package. The platform holds the topics that exist, as (chat, thread) pairs, and
  hands out thread ids from a counter; renaming succeeds on a topic that exists. The store
  associates a (chat, thread) pair with at most one context and a title. The general
  theorems below hold for every collaborator; this one is the concrete input of their
  instances.
\<close>

record world =
  w_topics :: "(int \<times> int) list"
  w_next_thread :: int
  w_bindings :: "((int \<times> int) \<times> RunContext \<times> string) list"

definition platform :: "world TelegramClient" where
  "platform =
     \<lparr>edit_forum_topic = (\<lambda>chat_id thread_id name w. ((chat_id, thread_id) \<in> set (w_topics w), w)),
      create_forum_topic = (\<lambda>chat_id name w.
        (Some \<lparr>message_thread_id = w_next_thread w\<rparr>,
         w\<lparr>w_topics := (chat_id, w_next_thread w) # w_topics w,
           w_next_thread := w_next_thread w + 1\<rparr>))\<rparr>"

definition state_store :: "world TopicStateStore" where
  "state_store =
     \<lparr>find_thread_for_context = (\<lambda>chat_id ctx w.
        (case filter (\<lambda>((c, t), (x, _)). c = chat_id \<and> x = ctx) (w_bindings w) of
           [] \<Rightarrow> None
         | ((c, t), _) # _ \<Rightarrow> Some t,
         w)),
      set_context = (\<lambda>chat_id thread_id ctx title w.
        w\<lparr>w_bindings :=
            ((chat_id, thread_id), (ctx, title))
              # filter (\<lambda>(k, _). k \<noteq> (chat_id, thread_id)) (w_bindings w)\<rparr>),
      get_thread = (\<lambda>chat_id thread_id w.
        (case map_of (w_bindings w) (chat_id, thread_id) of
           None \<Rightarrow> None
         | Some (ctx, title) \<Rightarrow>
             Some \<lparr>snap_chat_id = chat_id, snap_thread_id = thread_id, snap_context = Some ctx,
                   snap_sessions = [], snap_topic_title = Some title,
                   snap_default_engine = None\<rparr>,
         w)),
      delete_thread = (\<lambda>chat_id thread_id w.
        w\<lparr>w_bindings := filter (\<lambda>(k, _). k \<noteq> (chat_id, thread_id)) (w_bindings w)\<rparr>)\<rparr>"

definition fresh_world :: world where
  "fresh_world = \<lparr>w_topics = [], w_next_thread = 1, w_bindings = []\<rparr>"

text \<open>
  A world that has drifted: the store binds thread 7 of chat 1 to demo @main, and the
  platform has no such topic any more.
\<close>

definition drifted_world :: world where
  "drifted_world =
     \<lparr>w_topics = [], w_next_thread = 8,
      w_bindings = [((1, 7), (\<lparr>ctx_project = Some ''demo'', ctx_branch = Some ''main''\<rparr>, ''old''))]\<rparr>"

text \<open>A store that has not caught up with its writes: it answers every read with nothing.\<close>

definition lagging_store :: "world TopicStateStore" where
  "lagging_store = state_store\<lparr>get_thread := (\<lambda>chat_id thread_id w. (None, w))\<rparr>"


section \<open>Lemmas: the JSON codec\<close>

lemma digits_of_nat_not_Nil: "digits_of_nat n \<noteq> []"
  by (subst digits_of_nat.simps) simp

lemma char_of_eq_nat: "(n::nat) < 256 \<Longrightarrow> (char_of n = c) = (n = of_char c)"
  by (auto simp: char_of_eq_iff take_bit_eq_mod)

lemma char_eq_nat: "(c = d) = ((of_char c :: nat) = of_char d)"
  by simp

lemma is_digit_char_of: "(d::nat) < 10 \<Longrightarrow> is_digit (char_of (48 + d))"
  by (simp add: is_digit_def)

lemma digits_of_nat_digits: "c \<in> set (digits_of_nat n) \<Longrightarrow> is_digit c"
proof (induction n arbitrary: c rule: digits_of_nat.induct)
  case (1 n)
  show ?case
  proof (cases "n < 10")
    case True
    with "1.prems" show ?thesis
      by (subst (asm) digits_of_nat.simps) (simp add: is_digit_char_of)
  next
    case False
    with "1.prems" have "c \<in> set (digits_of_nat (n div 10)) \<or> c = char_of (48 + n mod 10)"
      by (subst (asm) digits_of_nat.simps) auto
    then show ?thesis
      using "1.IH" [OF False] by (auto simp: is_digit_char_of)
  qed
qed

lemma nat_of_digits_snoc: "nat_of_digits (ds @ [c]) = 10 * nat_of_digits ds + (of_char c - 48)"
  by (simp add: nat_of_digits_def)

lemma nat_of_digits_of_nat: "nat_of_digits (digits_of_nat n) = n"
proof (induction n rule: digits_of_nat.induct)
  case (1 n)
  show ?case
  proof (cases "n < 10")
    case True
    then show ?thesis
      by (subst digits_of_nat.simps) (simp add: nat_of_digits_def)
  next
    case False
    have "n mod 10 < 10" by simp
    then have "(of_char (char_of (48 + n mod 10) :: char) :: nat) = 48 + n mod 10"
      by simp
    with False "1.IH" show ?thesis
      by (subst digits_of_nat.simps) (simp add: nat_of_digits_snoc)
  qed
qed

lemma hd_digits_of_nat: "0 < n \<Longrightarrow> hd (digits_of_nat n) \<noteq> CHR ''0''"
proof (induction n rule: digits_of_nat.induct)
  case (1 n)
  show ?case
  proof (cases "n < 10")
    case True
    with "1.prems" have "char_of (48 + n) \<noteq> CHR ''0''"
      by (simp add: char_of_eq_nat)
    with True show ?thesis
      by (subst digits_of_nat.simps) simp
  next
    case False
    then have "0 < n div 10" by simp
    with False "1.IH" show ?thesis
      by (subst digits_of_nat.simps) (simp add: digits_of_nat_not_Nil)
  qed
qed

lemma digits_of_nat_0: "digits_of_nat 0 = ''0''"
  by (subst digits_of_nat.simps) (simp add: char_of_eq_nat)

lemma length_digits_zero: "1 < length (digits_of_nat n) \<Longrightarrow> 0 < n"
  by (cases "n = 0") (simp_all add: digits_of_nat_0)

lemma takeWhile_digits:
  assumes "\<not> is_digit c"
  shows "takeWhile is_digit (digits_of_nat n @ c # r) = digits_of_nat n"
    and "dropWhile is_digit (digits_of_nat n @ c # r) = c # r"
  using assms by (simp_all add: takeWhile_append2 dropWhile_append2 digits_of_nat_digits)

lemma digits_nonneg_head:
  "digits_of_nat n @ rest = x # xs \<Longrightarrow> x \<noteq> CHR ''-''"
proof -
  assume a: "digits_of_nat n @ rest = x # xs"
  have "x = hd (digits_of_nat n)"
    using a digits_of_nat_not_Nil [of n] by (cases "digits_of_nat n") auto
  then have "is_digit x"
    using digits_of_nat_digits [OF hd_in_set [OF digits_of_nat_not_Nil]] by simp
  then show ?thesis
    by (auto simp: is_digit_def)
qed

lemma parse_number_decimal:
  assumes c: "c = CHR '','' \<or> c = CHR ''}''" and ok: "int_ok i"
  shows "parse_number (decimal i @ c # r) = Some (JInt i, c # r)"
proof -
  have nd: "\<not> is_digit c"
    using c by (auto simp: is_digit_def)
  have fr: "parse_frac (c # r) = Some ([], c # r)"
    using c by (auto simp: parse_frac_def)
  have ex: "parse_exp (c # r) = Some ([], c # r)"
    using c by (auto simp: parse_exp_def)
  have lead: "\<not> (1 < length (digits_of_nat n) \<and> hd (digits_of_nat n) = CHR ''0'')" for n
    using length_digits_zero [of n] hd_digits_of_nat [of n] by blast
  show ?thesis
  proof (cases "i < 0")
    case True
    have "\<not> max_str_digits < length (digits_of_nat (nat (- i)))"
      using ok True by (simp add: int_ok_def abs_if)
    with True show ?thesis
      using lead [of "nat (- i)"]
      by (simp add: parse_number_def decimal_def takeWhile_digits [OF nd] fr ex
            digits_of_nat_not_Nil nat_of_digits_of_nat Let_def)
  next
    case False
    obtain x xs where xs: "digits_of_nat (nat i) @ c # r = x # xs"
      using digits_of_nat_not_Nil [of "nat i"] by (cases "digits_of_nat (nat i)") auto
    have "x \<noteq> CHR ''-''"
      using xs by (rule digits_nonneg_head)
    then have sg: "(case digits_of_nat (nat i) @ c # r of [] \<Rightarrow> []
                     | c # _ \<Rightarrow> if c = CHR ''-'' then [c] else []) = []"
      by (simp add: xs)
    have "\<not> max_str_digits < length (digits_of_nat (nat i))"
      using ok False by (simp add: int_ok_def abs_if)
    then show ?thesis
      using False lead [of "nat i"]
      by (simp add: parse_number_def decimal_def sg takeWhile_digits [OF nd] fr ex
            digits_of_nat_not_Nil nat_of_digits_of_nat Let_def)
  qed
qed

lemma utf8_len_ascii: "(of_char c :: nat) < 0x80 \<Longrightarrow> utf8_len (c # cs) = 1"
  by (simp add: utf8_len_def in_range_def)

lemma utf8_len_multi:
  assumes "utf8_len (c # cs) = Suc k" and "\<not> (of_char c :: nat) < 0x80"
  shows "k \<le> length cs \<and> (\<forall>x \<in> set (take k cs). 0x80 \<le> (of_char x :: nat))
         \<and> utf8_len (c # take k cs @ ys) = Suc k"
proof (cases cs)
  case Nil
  with assms show ?thesis
    by (auto simp: utf8_len_def in_range_def numeral_2_eq_2 numeral_3_eq_3 split: if_splits)
next
  case c1: (Cons b1 r1)
  show ?thesis
  proof (cases r1)
    case Nil
    with assms c1 show ?thesis
      by (auto simp: utf8_len_def in_range_def numeral_2_eq_2 numeral_3_eq_3 split: if_splits)
  next
    case c2: (Cons b2 r2)
    show ?thesis
    proof (cases r2)
      case Nil
      with assms c1 c2 show ?thesis
        by (auto simp: utf8_len_def in_range_def numeral_2_eq_2 numeral_3_eq_3 split: if_splits)
    next
      case c3: (Cons b3 r3)
      with assms c1 c2 show ?thesis
        by (auto simp: utf8_len_def in_range_def numeral_2_eq_2 numeral_3_eq_3 split: if_splits)
    qed
  qed
qed

lemma escape_char_high: "0x80 \<le> (of_char x :: nat) \<Longrightarrow> escape_char x = [x]"
  unfolding escape_char_def
  by (auto simp: char_eq_nat [of x] simp del: of_char_eq_iff)

lemma escape_high: "\<forall>x \<in> set xs. 0x80 \<le> (of_char x :: nat) \<Longrightarrow> concat (map escape_char xs) = xs"
  by (induction xs) (simp_all add: escape_char_high)

lemma hex_val_hex_digit: "n < 16 \<Longrightarrow> hex_val (hex_digit n) = Some n"
proof -
  assume n: "n < 16"
  have a: "(of_char (char_of (48 + n) :: char) :: nat) = 48 + n"
    using n by simp
  have b: "(of_char (char_of (87 + n) :: char) :: nat) = 87 + n"
    using n by simp
  show ?thesis
    using n by (simp add: hex_val_def hex_digit_def Let_def a b)
qed

lemma parse_escaped_control:
  assumes "(of_char c :: nat) < 0x20"
  shows "parse_escape (CHR ''u'' # CHR ''0'' # CHR ''0'' # hex_digit (of_char c div 16)
           # hex_digit (of_char c mod 16) # tail) = Some ([c], 5)"
proof -
  have a: "hex_val (hex_digit (of_char c div 16)) = Some (of_char c div 16)"
    using assms by (intro hex_val_hex_digit) simp
  have b: "hex_val (hex_digit (of_char c mod 16)) = Some (of_char c mod 16)"
    by (intro hex_val_hex_digit) simp
  have z: "hex_val CHR ''0'' = Some 0"
    by (simp add: hex_val_def)
  have v: "(of_char c :: nat) div 16 * 16 + of_char c mod 16 = of_char c"
    by simp
  have h: "hex4 (CHR ''0'' # CHR ''0'' # hex_digit (of_char c div 16)
             # hex_digit (of_char c mod 16) # tail) = Some (of_char c)"
    by (simp add: hex4_def a b z v)
  have u: "utf8_encode (of_char c) = [c]"
    using assms by (simp add: utf8_encode_def)
  have s: "\<not> (0xDC00 \<le> (of_char c :: nat) \<and> (of_char c :: nat) \<le> 0xDFFF)"
          "\<not> (0xD800 \<le> (of_char c :: nat) \<and> (of_char c :: nat) \<le> 0xDBFF)"
    using assms by simp_all
  show ?thesis
    unfolding parse_escape_def
    by (simp only: list.case h option.case s if_False u) simp
qed

lemma parse_escaped_named:
  "parse_string_body (CHR 0x5C # CHR 0x22 # tail) =
     (case parse_string_body tail of None \<Rightarrow> None | Some (s, r) \<Rightarrow> Some (CHR 0x22 # s, r))"
  "parse_string_body (CHR 0x5C # CHR 0x5C # tail) =
     (case parse_string_body tail of None \<Rightarrow> None | Some (s, r) \<Rightarrow> Some (CHR 0x5C # s, r))"
  "parse_string_body (CHR 0x5C # CHR ''n'' # tail) =
     (case parse_string_body tail of None \<Rightarrow> None | Some (s, r) \<Rightarrow> Some (CHR 0x0A # s, r))"
  "parse_string_body (CHR 0x5C # CHR ''r'' # tail) =
     (case parse_string_body tail of None \<Rightarrow> None | Some (s, r) \<Rightarrow> Some (CHR 0x0D # s, r))"
  "parse_string_body (CHR 0x5C # CHR ''t'' # tail) =
     (case parse_string_body tail of None \<Rightarrow> None | Some (s, r) \<Rightarrow> Some (CHR 0x09 # s, r))"
  "parse_string_body (CHR 0x5C # CHR ''b'' # tail) =
     (case parse_string_body tail of None \<Rightarrow> None | Some (s, r) \<Rightarrow> Some (CHR 0x08 # s, r))"
  "parse_string_body (CHR 0x5C # CHR ''f'' # tail) =
     (case parse_string_body tail of None \<Rightarrow> None | Some (s, r) \<Rightarrow> Some (CHR 0x0C # s, r))"
  by (simp_all add: parse_escape_def split: option.splits)

lemma parse_escaped_ascii:
  assumes "(of_char c :: nat) < 0x80"
  shows "parse_string_body (escape_char c @ tail) =
           (case parse_string_body tail of None \<Rightarrow> None | Some (s, r) \<Rightarrow> Some (c # s, r))"
proof (cases "c = CHR 0x22 \<or> c = CHR 0x5C \<or> c = CHR 0x0A \<or> c = CHR 0x0D \<or> c = CHR 0x09
               \<or> c = CHR 0x08 \<or> c = CHR 0x0C")
  case True
  then show ?thesis
    by (elim disjE; hypsubst_thin) (simp_all add: escape_char_def parse_escaped_named del: parse_string_body.simps)
next
  case other: False
  show ?thesis
  proof (cases "(of_char c :: nat) < 0x20")
    case True
    with other have e: "escape_char c = [CHR 0x5C, CHR ''u'', CHR ''0'', CHR ''0'',
              hex_digit (of_char c div 16), hex_digit (of_char c mod 16)]"
      by (simp add: escape_char_def)
    show ?thesis
      by (simp add: e parse_escaped_control [OF True] split: option.splits)
  next
    case False
    with other have e: "escape_char c = [c]"
      by (simp add: escape_char_def)
    from other False show ?thesis
      by (simp add: e utf8_len_ascii [OF assms] split: option.splits)
  qed
qed

lemma parse_string_body_escape:
  "valid_utf8 s \<Longrightarrow>
   parse_string_body (concat (map escape_char s) @ CHR 0x22 # rest) = Some (s, rest)"
proof (induction s rule: valid_utf8.induct)
  case 1
  show ?case by simp
next
  case (2 c cs)
  from "2.prems" obtain k where k: "utf8_len (c # cs) = Suc k" and v: "valid_utf8 (drop k cs)"
    by (auto split: nat.splits)
  have IH: "parse_string_body (concat (map escape_char (drop k cs)) @ CHR 0x22 # rest)
              = Some (drop k cs, rest)"
    using "2.IH" [OF k v] .
  show ?case
  proof (cases "(of_char c :: nat) < 0x80")
    case True
    then have "k = 0"
      using k by (simp add: utf8_len_ascii)
    with IH True show ?thesis
      by (simp add: parse_escaped_ascii)
  next
    case False
    have m: "k \<le> length cs" "\<forall>x \<in> set (take k cs). 0x80 \<le> (of_char x :: nat)"
      "utf8_len (c # take k cs @ ys) = Suc k" for ys
      using utf8_len_multi [OF k False] by blast+
    have split: "concat (map escape_char cs)
                   = take k cs @ concat (map escape_char (drop k cs))"
      using escape_high [OF m(2)]
      by (subst append_take_drop_id [of k cs, symmetric], subst map_append) simp
    have c: "escape_char c = [c]" "c \<noteq> CHR 0x22" "c \<noteq> CHR 0x5C" "\<not> (of_char c :: nat) < 0x20"
      using False by (auto simp: escape_char_high)
    have len: "utf8_len (c # take k cs @ concat (map escape_char (drop k cs)) @ CHR 0x22 # rest) = Suc k"
      by (rule m(3))
    show ?thesis
      using c m(1) IH
      by (simp add: split len)
  qed
qed

lemma skip_ws_keep: "\<not> json_ws x \<Longrightarrow> skip_ws (x # xs) = x # xs"
  by (simp add: skip_ws_def)

lemma decimal_head:
  "\<exists>x xs. decimal i = x # xs \<and> (x = CHR ''-'' \<or> is_digit x)"
proof (cases "i < 0")
  case True
  then show ?thesis by (simp add: decimal_def)
next
  case False
  obtain x xs where xs: "digits_of_nat (nat i) = x # xs"
    using digits_of_nat_not_Nil [of "nat i"] by (cases "digits_of_nat (nat i)") auto
  then have "is_digit x"
    using digits_of_nat_digits [of x "nat i"] by simp
  with False xs show ?thesis by (simp add: decimal_def)
qed

lemma digit_not_special:
  "x = CHR ''-'' \<or> is_digit x \<Longrightarrow>
     x \<noteq> CHR ''{'' \<and> x \<noteq> CHR ''['' \<and> x \<noteq> CHR 0x22 \<and> \<not> json_ws x"
  by (auto simp: is_digit_def json_ws_def)

lemma parse_value_scalar:
  assumes "scalar v" and c: "c = CHR '','' \<or> c = CHR ''}''"
  shows "parse_value (Suc n) (json_text v @ c # r) = Some (v, c # r)"
proof (cases v)
  case JNull
  then show ?thesis by (simp add: is_digit_def)
next
  case (JInt i)
  obtain x xs where x: "decimal i = x # xs" "x = CHR ''-'' \<or> is_digit x"
    using decimal_head by blast
  have "parse_value (Suc n) (x # xs @ c # r) = parse_number (x # xs @ c # r)"
    using digit_not_special [OF x(2)] x(2) by simp
  moreover have "int_ok i"
    using assms(1) JInt by (simp add: scalar_def)
  ultimately show ?thesis
    using parse_number_decimal [OF c, of i r] by (simp add: JInt x(1))
next
  case (JStr s)
  with assms have "valid_utf8 s" by (simp add: scalar_def)
  then show ?thesis
    by (simp add: JStr json_string_def parse_string_body_escape)
qed (use assms in \<open>simp_all add: scalar_def\<close>)

lemma scalar_head:
  assumes "scalar v"
  shows "\<exists>x xs. json_text v = x # xs \<and> \<not> json_ws x"
proof (cases v)
  case (JInt i)
  then show ?thesis
    using decimal_head [of i] digit_not_special by auto
qed (use assms in \<open>auto simp: scalar_def json_string_def json_ws_def\<close>)

lemma join_with_head: "\<exists>t. join_with sep ((a # x) # xs) = a # t"
  by (cases xs) simp_all

lemma parse_member_step:
  assumes k: "valid_utf8 k" and v: "scalar v" and c: "c = CHR '','' \<or> c = CHR ''}''"
  shows "parse_members (Suc (Suc j)) (render_member (k, v) @ c # t) =
           (if c = CHR '',''
            then (case parse_members (Suc j) (skip_ws t) of
                    None \<Rightarrow> None
                  | Some (ms, r5) \<Rightarrow> Some ((k, v) # ms, r5))
            else Some ([(k, v)], t))"
proof -
  obtain x xs where x: "json_text v = x # xs" "\<not> json_ws x"
    using scalar_head [OF v] by blast
  have ws: "skip_ws (json_text v @ c # t) = json_text v @ c # t"
    using x by (simp add: skip_ws_keep)
  have wsc: "skip_ws (c # t) = c # t" "skip_ws (CHR '':'' # u) = CHR '':'' # u" for u
    using c by (auto simp: skip_ws_def json_ws_def)
  have key: "parse_string_body (concat (map escape_char k) @ CHR 0x22 # CHR '':'' # json_text v @ c # t)
               = Some (k, CHR '':'' # json_text v @ c # t)"
    using k by (rule parse_string_body_escape)
  have val: "parse_value (Suc j) (json_text v @ c # t) = Some (v, c # t)"
    using v c by (rule parse_value_scalar)
  show ?thesis
    apply (subst parse_members.simps(2))
    using c
    apply (auto simp add: render_member_def json_string_def key wsc ws val
             simp del: parse_members.simps parse_value.simps)
    done
qed

lemma parse_members_scalars:
  assumes "ms \<noteq> []" and "\<forall>m \<in> set ms. valid_utf8 (fst m) \<and> scalar (snd m)" and "length ms < n"
  shows "parse_members n (join_with '','' (map render_member ms) @ CHR ''}'' # r) = Some (ms, r)"
  using assms
proof (induction ms arbitrary: n)
  case Nil
  then show ?case by simp
next
  case (Cons m ms)
  obtain k v where m: "m = (k, v)" by (cases m)
  from Cons.prems m have k: "valid_utf8 k" and v: "scalar v" by auto
  from Cons.prems obtain j where n: "n = Suc (Suc j)" "length ms < Suc j"
    by (cases n; cases "n - 1") auto
  show ?case
  proof (cases ms)
    case Nil
    then show ?thesis
      using parse_member_step [OF k v, of "CHR ''}''" j r]
      by (simp add: m n del: parse_members.simps)
  next
    case (Cons m' ms')
    have IH: "parse_members (Suc j) (join_with '','' (map render_member ms) @ CHR ''}'' # r)
                = Some (ms, r)"
      using Cons.IH [of "Suc j"] Cons.prems n Cons by simp
    have q: "\<exists>t. join_with '','' (map render_member ms) = CHR 0x22 # t"
      using Cons join_with_head by (simp add: render_member_def json_string_def)
    then have ws: "skip_ws (join_with '','' (map render_member ms) @ CHR ''}'' # r)
                     = join_with '','' (map render_member ms) @ CHR ''}'' # r"
      by (auto simp: skip_ws_def json_ws_def)
    have j: "join_with '','' (render_member (k, v) # map render_member ms)
               = render_member (k, v) @ CHR '','' # join_with '','' (map render_member ms)"
      using Cons by simp
    show ?thesis
      using parse_member_step [OF k v, of "CHR '',''" j
              "join_with '','' (map render_member ms) @ CHR ''}'' # r"]
      by (simp add: j m n ws IH del: parse_members.simps)
  qed
qed

lemma json_text_obj:
  "json_text (JObj ms) = CHR ''{'' # join_with '','' (map render_member ms) @ ''}''"
  by (simp add: render_member_def [abs_def])

lemma parse_value_obj:
  "parse_value (Suc n) (CHR ''{'' # CHR 0x22 # t) =
     (case parse_members n (CHR 0x22 # t) of None \<Rightarrow> None | Some (ms, r) \<Rightarrow> Some (JObj ms, r))"
  by (simp add: skip_ws_def json_ws_def del: parse_members.simps)

lemma length_join_with:
  "\<forall>x \<in> set xs. x \<noteq> [] \<Longrightarrow> length xs \<le> length (join_with sep xs)"
  by (induction sep xs rule: join_with.induct) (auto simp: Suc_le_eq neq_Nil_conv)

lemma render_member_not_Nil: "render_member m \<noteq> []"
  by (simp add: render_member_def json_string_def)

lemma json_loads_dumps_obj:
  assumes "ms \<noteq> []" and "\<forall>m \<in> set ms. valid_utf8 (fst m) \<and> scalar (snd m)"
  shows "json_loads (json_text (JObj ms)) = Some (JObj ms)"
proof -
  let ?body = "join_with '','' (map render_member ms)"
  have len: "length ms \<le> length ?body"
    using length_join_with [of "map render_member ms" "'',''"] by (simp add: render_member_not_Nil)
  obtain m ms' where ms: "ms = m # ms'"
    using assms(1) by (cases ms) auto
  obtain t where t: "?body = CHR 0x22 # t"
    using join_with_head [of "'',''" "CHR 0x22" _ "map render_member ms'"]
    by (auto simp: ms render_member_def json_string_def)
  have ws: "skip_ws (?body @ ''}'') = ?body @ ''}''"
    by (simp add: t skip_ws_def json_ws_def)
  have mem: "parse_members (Suc (length ?body)) (?body @ CHR ''}'' # []) = Some (ms, [])"
    using assms len by (intro parse_members_scalars) auto
  have pv: "parse_value (Suc (Suc (length ?body))) (CHR ''{'' # ?body @ ''}'') = Some (JObj ms, [])"
    using mem unfolding t append_Cons parse_value_obj by simp
  have l: "length (json_text (JObj ms)) = Suc (Suc (length ?body))"
    by (simp add: json_text_obj del: json_text.simps)
  have w: "skip_ws (json_text (JObj ms)) = CHR ''{'' # ?body @ ''}''"
    by (simp add: json_text_obj skip_ws_def json_ws_def del: json_text.simps)
  show ?thesis
    unfolding json_loads_def l w pv by (simp add: skip_ws_def)
qed

lemma scalar_simps:
  "scalar (JInt i) = int_ok i" "scalar JNull" "scalar (JStr s) = valid_utf8 s"
  "scalar (json_opt_int oi) = int_opt_ok oi" "scalar (json_opt_str os) = valid_opt os"
  by (auto simp: scalar_def json_opt_int_def json_opt_str_def valid_opt_def int_opt_ok_def
        split: option.splits)

lemma valid_utf8_ascii: "\<forall>c \<in> set s. (of_char c :: nat) < 0x80 \<Longrightarrow> valid_utf8 s"
  by (induction s) (simp_all add: utf8_len_ascii)

lemma valid_names:
  "valid_utf8 ''version''" "valid_utf8 ''event_id''" "valid_utf8 ''intent''" "valid_utf8 ''chat_id''"
  "valid_utf8 ''thread_id''" "valid_utf8 ''text''" "valid_utf8 ''origin_agent''"
  "valid_utf8 ''created_at''" "valid_utf8 (intent_name i)"
  by (rule valid_utf8_ascii, simp add: intent_name_def split: SwarmIntent.splits)+

lemma json_loads_encode:
  assumes "valid_envelope e"
  shows "json_loads (envelope_text e) = Some (to_builtins e)"
  unfolding envelope_text_def to_builtins_def
  using assms
  by (intro json_loads_dumps_obj)
     (simp_all add: scalar_simps valid_names valid_envelope_def del: valid_utf8.simps)

lemma envelope_of_json_to_builtins: "envelope_of_json (to_builtins e) = Inr e"
  by (cases "env_intent e")
     (simp_all add: envelope_of_json_def to_builtins_def field_ok_def field_def known_fields_def
        as_int_def as_str_def as_opt_int_def as_opt_str_def as_intent_def intent_name_def
        json_opt_int_def json_opt_str_def Let_def split: option.splits)

lemma decode_encode: "valid_envelope e \<Longrightarrow> decode_envelope (envelope_text e) = Inr e"
  by (simp add: decode_envelope_def json_loads_encode envelope_of_json_to_builtins)

text \<open>The encoder on a valid envelope, and the limit on integers in arithmetic terms.\<close>

lemma encode_envelope_valid: "valid_envelope e \<Longrightarrow> encode_envelope e = Inr (envelope_text e)"
  by (simp add: encode_envelope_def json_encode_def envelope_text_def to_builtins_def
        valid_envelope_def json_opt_int_def json_opt_str_def int_opt_ok_def split: option.splits)

lemma encode_envelope_raises:
  "\<not> int_ok (env_chat_id e) \<Longrightarrow> encode_envelope e = Inl ValueError"
  by (simp add: encode_envelope_def json_encode_def to_builtins_def)

lemma length_digits_of_nat: "length (digits_of_nat n) \<le> Suc k \<longleftrightarrow> n < 10 ^ Suc k"
proof (induction k arbitrary: n)
  case 0
  show ?case
    by (subst digits_of_nat.simps) (auto simp: digits_of_nat_not_Nil Suc_le_eq)
next
  case (Suc k)
  show ?case
  proof (cases "n < 10")
    case True
    have "(10::nat) ^ 1 \<le> 10 ^ Suc (Suc k)"
      by (rule power_increasing) simp_all
    then have "(10::nat) \<le> 10 ^ Suc (Suc k)"
      by (simp only: power_one_right)
    with True have "n < 10 ^ Suc (Suc k)"
      by (rule less_le_trans)
    with True show ?thesis
      by (subst digits_of_nat.simps) simp
  next
    case False
    have "n div 10 < 10 ^ Suc k \<longleftrightarrow> n < 10 ^ Suc (Suc k)"
      by (simp add: less_mult_imp_div_less div_less_iff_less_mult mult.commute)
    with False Suc.IH [of "n div 10"] show ?thesis
      by (subst digits_of_nat.simps) simp
  qed
qed

lemma int_ok_iff: "int_ok i \<longleftrightarrow> \<bar>i\<bar> < 10 ^ max_str_digits"
proof -
  have "\<exists>k. max_str_digits = Suc k"
    by (rule exI [of _ 4299]) (simp add: max_str_digits_def)
  then obtain k where k: "max_str_digits = Suc k" ..
  have "int_ok i \<longleftrightarrow> nat \<bar>i\<bar> < 10 ^ Suc k"
    unfolding int_ok_def k by (rule length_digits_of_nat)
  also have "\<dots> \<longleftrightarrow> \<bar>i\<bar> < 10 ^ Suc k"
    by (simp only: nat_less_iff [OF abs_ge_zero] of_nat_power of_nat_numeral)
  finally show ?thesis
    by (simp only: k)
qed

section \<open>Lemmas: the inbox tailer\<close>

lemma split_newline_not_Nil: "split_newline xs \<noteq> []"
  by (induction xs) (auto split: list.splits)

lemma split_newline_Cons:
  "split_newline (c # cs) =
     (if c = CHR 0x0A then [] # split_newline cs
      else (c # hd (split_newline cs)) # tl (split_newline cs))"
  using split_newline_not_Nil [of cs] by (cases "split_newline cs") simp_all

lemma split_newline_no_newline: "CHR 0x0A \<notin> set xs \<Longrightarrow> split_newline xs = [xs]"
  by (induction xs) (auto split: list.splits)

lemma split_newline_line:
  "CHR 0x0A \<notin> set xs \<Longrightarrow> split_newline (xs @ CHR 0x0A # ys) = xs # split_newline ys"
  by (induction xs) (auto split: list.splits)

lemma split_newline_append:
  "split_newline (p @ q) =
     butlast (split_newline p) @ split_newline (last (split_newline p) @ q)"
proof (induction p)
  case Nil
  show ?case by simp
next
  case (Cons c p)
  obtain l ls where s: "split_newline p = l # ls"
    using split_newline_not_Nil [of p] by (cases "split_newline p") auto
  show ?case
  proof (cases "c = CHR 0x0A")
    case True
    with Cons s show ?thesis by simp
  next
    case False
    show ?thesis
    proof (cases ls)
      case Nil
      with Cons s False show ?thesis
        using split_newline_not_Nil [of "l @ q"]
        by (auto split: list.splits)
    next
      case (Cons l' ls')
      with Cons.IH s False show ?thesis
        by (auto split: list.splits)
    qed
  qed
qed

lemma last_split_no_newline: "CHR 0x0A \<notin> set (last (split_newline xs))"
  by (induction xs) (auto simp: split_newline_not_Nil split: list.splits)

lemma butlast_split_last: "butlast (split_newline (last (split_newline xs))) = []"
  by (simp add: split_newline_no_newline last_split_no_newline)

lemma last_split_last: "last (split_newline (last (split_newline xs))) = last (split_newline xs)"
  by (simp add: split_newline_no_newline last_split_no_newline)

lemma process_lines_append:
  "process_lines path (ls1 @ ls2) n =
     (fst (process_lines path ls1 n) @ fst (process_lines path ls2 (snd (process_lines path ls1 n))),
      snd (process_lines path ls2 (snd (process_lines path ls1 n))))"
  by (induction path ls1 n rule: process_lines.induct)
     (auto simp: Let_def split: sum.splits option.splits prod.splits)

lemma records_append: "records (xs @ ys) = records xs @ records ys"
  by (induction xs rule: records.induct) simp_all

lemma yielded_append: "yielded (xs @ ys) = yielded xs @ yielded ys"
  by (induction xs rule: yielded.induct) simp_all

lemma yielded_map_Log: "yielded (map Log ls) = []"
  by (induction ls) simp_all

lemma records_map_Log: "records (map Log ls) = map Log ls"
  by (induction ls) simp_all

lemma records_process_lines: "records (fst (process_lines path ls n)) = fst (process_lines path ls n)"
  by (induction path ls n rule: process_lines.induct)
     (auto simp: Let_def records_append records_map_Log split: sum.splits option.splits prod.splits)

lemma poll_cycle_existing:
  "poll_cycle cfg (Some content) st =
     (let offset' = (if length content < st_offset st then 0 else st_offset st);
          chunk = drop offset' content
      in if chunk \<noteq> []
         then Inr (fst (process_lines (inbox_path cfg)
                          (butlast (split_newline (st_remainder st @ chunk)))
                          (st_next_message_id st))
                     @ [Sleep (poll_interval_s cfg)],
                   \<lparr>st_offset = offset' + length chunk,
                    st_remainder = last (split_newline (st_remainder st @ chunk)),
                    st_next_message_id =
                      snd (process_lines (inbox_path cfg)
                             (butlast (split_newline (st_remainder st @ chunk)))
                             (st_next_message_id st))\<rparr>)
         else Inr ([Sleep (poll_interval_s cfg)], st\<lparr>st_offset := offset' + length chunk\<rparr>))"
  by (simp add: poll_cycle_def read_chunk_def Let_def split_newline_not_Nil split: prod.splits)

lemma tailed_empty: "tailed path [] = initial_state"
  by (simp add: tailed_def initial_state_def)

lemma poll_cycle_tailed:
  assumes "is_prefix c d"
  shows "\<exists>events. poll_cycle cfg (Some d) (tailed (inbox_path cfg) c) = Inr (events, tailed (inbox_path cfg) d)
           \<and> fst (process_lines (inbox_path cfg) (butlast (split_newline c)) (- 1)) @ records events
               = fst (process_lines (inbox_path cfg) (butlast (split_newline d)) (- 1))"
proof -
  obtain q where d: "d = c @ q"
    using assms by (metis append_take_drop_id is_prefix_def)
  have bl: "butlast (split_newline (c @ q))
              = butlast (split_newline c) @ butlast (split_newline (last (split_newline c) @ q))"
    by (subst split_newline_append) (simp add: butlast_append split_newline_not_Nil)
  have la: "last (split_newline (c @ q)) = last (split_newline (last (split_newline c) @ q))"
    by (subst split_newline_append) (simp add: split_newline_not_Nil)
  show ?thesis
  proof (cases "q = []")
    case True
    then show ?thesis
      by (simp add: poll_cycle_existing d tailed_def)
  next
    case False
    then show ?thesis
      by (simp add: poll_cycle_existing d tailed_def Let_def bl la process_lines_append
            records_append records_process_lines)
  qed
qed

lemma poll_cycles_tailed:
  assumes "append_only (c # ds)"
  shows "\<exists>events. poll_cycles cfg (map Some ds) (tailed (inbox_path cfg) c)
             = Inr (events, tailed (inbox_path cfg) (last (c # ds)))
           \<and> fst (process_lines (inbox_path cfg) (butlast (split_newline c)) (- 1)) @ records events
               = fst (process_lines (inbox_path cfg) (butlast (split_newline (last (c # ds)))) (- 1))"
  using assms
proof (induction ds arbitrary: c)
  case Nil
  show ?case by simp
next
  case (Cons d ds)
  from Cons.prems have p: "is_prefix c d" and a: "append_only (d # ds)" by simp_all
  obtain e1 where e1: "poll_cycle cfg (Some d) (tailed (inbox_path cfg) c) = Inr (e1, tailed (inbox_path cfg) d)"
    "fst (process_lines (inbox_path cfg) (butlast (split_newline c)) (- 1)) @ records e1
               = fst (process_lines (inbox_path cfg) (butlast (split_newline d)) (- 1))"
    using poll_cycle_tailed [OF p] by blast
  obtain e2 where e2: "poll_cycles cfg (map Some ds) (tailed (inbox_path cfg) d)
             = Inr (e2, tailed (inbox_path cfg) (last (d # ds)))"
    "fst (process_lines (inbox_path cfg) (butlast (split_newline d)) (- 1)) @ records e2
               = fst (process_lines (inbox_path cfg) (butlast (split_newline (last (d # ds)))) (- 1))"
    using Cons.IH [OF a] by blast
  show ?case
    using e1 e2 by (simp add: records_append flip: append_assoc)
qed

lemma descending_0: "descending n 0 = []"
  by (simp add: descending_def)

lemma descending_Suc: "descending n (Suc k) = n # descending (n - 1) k"
proof -
  have "[0..<Suc k] = 0 # map Suc [0..<k]"
    by (simp add: upt_conv_Cons map_Suc_upt del: upt_Suc)
  then show ?thesis
    by (simp add: descending_def comp_def del: upt_Suc)
qed

lemma descending_append: "descending n (a + b) = descending n a @ descending (n - int a) b"
  by (induction a arbitrary: n) (simp_all add: descending_0 descending_Suc diff_diff_eq add.commute)

lemma to_synthetic_message_id:
  "to_synthetic_message e n = (logs, Some m) \<Longrightarrow> msg_message_id m = n"
  by (auto simp: to_synthetic_message_def split: if_splits)

lemma process_lines_ids:
  "map msg_message_id (yielded (fst (process_lines path ls n)))
     = descending n (length (yielded (fst (process_lines path ls n))))
   \<and> snd (process_lines path ls n) = n - int (length (yielded (fst (process_lines path ls n))))"
proof (induction path ls n rule: process_lines.induct)
  case (1 path n)
  show ?case by (simp add: descending_0)
next
  case (2 path line lines n)
  show ?case
  proof (cases "bytes_strip line = []")
    case True
    with 2 show ?thesis by simp
  next
    case False
    show ?thesis
    proof (cases "decode_envelope (bytes_strip line)")
      case (Inl exc)
      with 2 False show ?thesis
        by (auto simp add: Let_def split: prod.splits)
    next
      case (Inr envelope)
      obtain logs om where t: "to_synthetic_message envelope n = (logs, om)"
        by (cases "to_synthetic_message envelope n")
      show ?thesis
      proof (cases om)
        case None
        with 2 False Inr t show ?thesis
          by (auto simp add: Let_def yielded_append yielded_map_Log split: prod.splits)
      next
        case (Some m)
        have "msg_message_id m = n"
          using t Some by (auto intro: to_synthetic_message_id)
        with 2 False Inr t Some show ?thesis
          by (auto simp add: Let_def yielded_append yielded_map_Log descending_Suc split: prod.splits)
      qed
    qed
  qed
qed

lemma poll_cycle_total: "\<exists>events st'. poll_cycle cfg file st = Inr (events, st')"
  by (cases "file") (simp_all add: poll_cycle_existing Let_def, simp add: poll_cycle_def read_chunk_def)

lemma poll_cycle_ids:
  assumes "poll_cycle cfg file st = Inr (events, st')"
  shows "map msg_message_id (yielded events) = descending (st_next_message_id st) (length (yielded events))
       \<and> st_next_message_id st' = st_next_message_id st - int (length (yielded events))"
proof (cases "file")
  case None
  with assms show ?thesis
    by (auto simp: poll_cycle_def read_chunk_def descending_0)
next
  case (Some content)
  with assms show ?thesis
    using process_lines_ids
    by (auto simp: poll_cycle_existing Let_def yielded_append descending_0 split: if_splits)
qed

lemma poll_cycles_total: "\<exists>events st'. poll_cycles cfg files st = Inr (events, st')"
proof (induction files arbitrary: st)
  case Nil
  show ?case by simp
next
  case (Cons f fs)
  obtain e1 s1 where "poll_cycle cfg f st = Inr (e1, s1)"
    using poll_cycle_total by blast
  moreover obtain e2 s2 where "poll_cycles cfg fs s1 = Inr (e2, s2)"
    using Cons by blast
  ultimately show ?case by simp
qed

lemma poll_cycles_ids:
  assumes "poll_cycles cfg files st = Inr (events, st')"
  shows "map msg_message_id (yielded events) = descending (st_next_message_id st) (length (yielded events))
       \<and> st_next_message_id st' = st_next_message_id st - int (length (yielded events))"
  using assms
proof (induction files arbitrary: st events st')
  case Nil
  then show ?case by (simp add: descending_0)
next
  case (Cons f fs)
  obtain e1 s1 where c1: "poll_cycle cfg f st = Inr (e1, s1)"
    using poll_cycle_total by blast
  obtain e2 s2 where c2: "poll_cycles cfg fs s1 = Inr (e2, s2)"
    using poll_cycles_total by blast
  from Cons.prems c1 c2 have ev: "events = e1 @ e2" "st' = s2" by simp_all
  show ?case
    using poll_cycle_ids [OF c1] Cons.IH [OF c2]
    by (simp add: ev yielded_append descending_append)
qed

lemma process_lines_deliverable:
  "map msg_raw (yielded (fst (process_lines path ls n)))
     = map (\<lambda>e. JObj [(''swarm'', to_builtins e)]) (List.map_filter deliverable ls)"
  by (induction path ls n rule: process_lines.induct)
     (auto simp: Let_def deliverable_def to_synthetic_message_def List.map_filter_simps
        yielded_append yielded_map_Log
        split: sum.splits option.splits prod.splits if_splits)

lemma hex_digit_not_nl: "n < 16 \<Longrightarrow> hex_digit n \<noteq> CHR 0x0A"
  by (auto simp: hex_digit_def char_of_eq_nat)

lemma escape_char_no_nl: "CHR 0x0A \<notin> set (escape_char c)"
proof -
  have "(of_char c :: nat) div 16 < 16" "(of_char c :: nat) mod 16 < 16"
    by (simp_all add: less_mult_imp_div_less)
  then have a: "hex_digit (of_char c div 16) \<noteq> CHR 0x0A" "hex_digit (of_char c mod 16) \<noteq> CHR 0x0A"
    by (simp_all add: hex_digit_not_nl)
  show ?thesis
    using a a [symmetric] by (auto simp: escape_char_def)
qed

lemma json_string_no_nl: "CHR 0x0A \<notin> set (json_string s)"
  by (induction s) (auto simp: json_string_def escape_char_no_nl)

lemma decimal_no_nl: "CHR 0x0A \<notin> set (decimal i)"
  using digits_of_nat_digits [of "CHR 0x0A"]
  by (auto simp: decimal_def is_digit_def)

lemma flat_no_nl: "flat v \<Longrightarrow> CHR 0x0A \<notin> set (json_text v)"
  by (cases v) (simp_all add: flat_def json_string_no_nl decimal_no_nl)

lemma join_no_nl:
  "\<forall>x \<in> set xs. CHR 0x0A \<notin> set x \<Longrightarrow> CHR 0x0A \<notin> set (join_with '','' xs)"
  by (induction "'',''" xs rule: join_with.induct) auto

lemma obj_no_nl:
  assumes "\<forall>m \<in> set ms. flat (snd m)"
  shows "CHR 0x0A \<notin> set (json_text (JObj ms))"
proof -
  have "\<forall>x \<in> set (map render_member ms). CHR 0x0A \<notin> set x"
    using assms by (auto simp: render_member_def json_string_no_nl flat_no_nl)
  then have "CHR 0x0A \<notin> set (join_with '','' (map render_member ms))"
    by (rule join_no_nl)
  then show ?thesis
    by (simp add: json_text_obj del: json_text.simps)
qed

lemma encode_no_newline: "CHR 0x0A \<notin> set (envelope_text e)"
  unfolding envelope_text_def to_builtins_def
  by (rule obj_no_nl)
     (auto simp: flat_def json_opt_int_def json_opt_str_def split: option.splits)

lemma bytes_strip_keep:
  assumes "\<not> ascii_space a" and "\<not> ascii_space b"
  shows "bytes_strip (a # xs @ [b]) = a # xs @ [b]"
  using assms by (simp add: bytes_strip_def)

lemma encode_shape: "\<exists>xs. envelope_text e = CHR ''{'' # xs @ [CHR ''}'']"
  by (simp add: envelope_text_def to_builtins_def json_text_obj del: json_text.simps)

lemma bytes_strip_encode: "bytes_strip (envelope_text e) = envelope_text e"
proof -
  obtain xs where "envelope_text e = CHR ''{'' # xs @ [CHR ''}'']"
    using encode_shape by blast
  then show ?thesis
    by (simp add: bytes_strip_keep ascii_space_def in_range_def)
qed

lemma encode_not_Nil: "envelope_text e \<noteq> []"
  using encode_shape [of e] by auto

lemma yielded_records: "yielded (records es) = yielded es"
  by (induction es rule: records.induct) simp_all

lemma process_encoded_line:
  assumes "deliverable_envelope e"
  shows "process_lines path (envelope_text e # ls) n =
           (Yield (the (snd (to_synthetic_message e n))) # fst (process_lines path ls (n - 1)),
            snd (process_lines path ls (n - 1)))"
  using assms
  by (simp add: bytes_strip_encode encode_not_Nil decode_encode deliverable_envelope_def
        to_synthetic_message_def Let_def split: prod.splits)

lemma process_lines_translated:
  "map Some (yielded (fst (process_lines path ls n)))
     = translated n (List.map_filter deliverable ls)"
  by (induction path ls n rule: process_lines.induct)
     (auto simp: Let_def deliverable_def to_synthetic_message_def List.map_filter_simps
        yielded_append yielded_map_Log
        split: sum.splits option.splits prod.splits if_splits)

lemma poll_append_only_yielded:
  assumes "append_only contents" and "contents \<noteq> []"
  shows "\<exists>events st.
           poll_swarm_inbox cfg (map Some contents) = Inr (events, st)
           \<and> yielded events
               = yielded (fst (process_lines (inbox_path cfg)
                                 (butlast (split_newline (last contents))) (- 1)))"
proof -
  have chain: "append_only ([] # contents)"
    using assms by (cases contents) (simp_all add: is_prefix_def)
  obtain events where ev:
    "poll_cycles cfg (map Some contents) (tailed (inbox_path cfg) [])
       = Inr (events, tailed (inbox_path cfg) (last ([] # contents)))"
    "fst (process_lines (inbox_path cfg) (butlast (split_newline [])) (- 1)) @ records events
       = fst (process_lines (inbox_path cfg) (butlast (split_newline (last ([] # contents)))) (- 1))"
    using poll_cycles_tailed [OF chain, of cfg] by blast
  have r: "records events
             = fst (process_lines (inbox_path cfg) (butlast (split_newline (last contents))) (- 1))"
    using ev(2) assms(2) by simp
  have y: "yielded events
             = yielded (fst (process_lines (inbox_path cfg)
                               (butlast (split_newline (last contents))) (- 1)))"
    using r yielded_records [of events] by simp
  show ?thesis
    using ev(1) y
    by (intro exI [of _ events] exI [of _ "tailed (inbox_path cfg) (last ([] # contents))"])
       (simp add: poll_swarm_inbox_def tailed_empty)
qed

lemma deliverable_text:
  "valid_envelope e \<Longrightarrow>
     deliverable (envelope_text e)
       = (if env_intent e = Trigger \<and> \<not> str_blank (env_text e) then Some e else None)"
  by (simp add: deliverable_def bytes_strip_encode encode_not_Nil decode_encode)

section \<open>Theorems: the envelope codec and the inbox tailer\<close>

lemma poll_missing_cycles:
  "poll_cycles cfg (replicate k None @ files) st =
     (case poll_cycles cfg files (if k = 0 then st else st\<lparr>st_offset := 0, st_remainder := []\<rparr>) of
        Inl exc \<Rightarrow> Inl exc
      | Inr (events, st') \<Rightarrow> Inr (replicate k (Sleep (poll_interval_s cfg)) @ events, st'))"
proof (induction k arbitrary: st)
  case 0
  show ?case by (simp split: sum.splits)
next
  case (Suc k)
  have step: "poll_cycles cfg (None # fs) st =
      (case poll_cycles cfg fs (st\<lparr>st_offset := 0, st_remainder := []\<rparr>) of
         Inl exc \<Rightarrow> Inl exc
       | Inr (events, st') \<Rightarrow> Inr (Sleep (poll_interval_s cfg) # events, st'))" for fs
    by (simp add: poll_cycle_def read_chunk_def split: sum.splits)
  show ?case
    unfolding replicate_Suc append_Cons step Suc.IH
    by (cases k) (simp_all split: sum.splits)
qed

lemma yielded_sleeps: "yielded (replicate k (Sleep x)) = []"
  by (induction k) simp_all

lemma is_prefix_refl: "is_prefix x x"
  by (simp add: is_prefix_def)

lemma append_only_repeat: "append_only (x # rest) \<Longrightarrow> append_only (x # replicate j x @ rest)"
  by (induction j) (simp_all add: is_prefix_refl)

lemma tail_partial_record:
  assumes A: "deliverable_envelope A" and B: "deliverable_envelope B" and C: "deliverable_envelope C"
    and k: "k \<le> length (envelope_text B)" and n: "1 \<le> n"
  shows "(\<exists>events st.
            poll_swarm_inbox cfg
              (replicate n (Some (envelope_text A @ CHR 0x0A # take k (envelope_text B))))
              = Inr (events, st)
            \<and> map Some (yielded events) = [snd (to_synthetic_message A (- 1))])
       \<and> (\<exists>events st.
            poll_swarm_inbox cfg
              (replicate n (Some (envelope_text A @ CHR 0x0A # take k (envelope_text B)))
               @ [Some (envelope_text A @ CHR 0x0A # envelope_text B
                        @ CHR 0x0A # envelope_text C @ [CHR 0x0A])])
              = Inr (events, st)
            \<and> map Some (yielded events)
                = [snd (to_synthetic_message A (- 1)), snd (to_synthetic_message B (- 2)),
                   snd (to_synthetic_message C (- 3))])"
proof -
  let ?p = "envelope_text A @ CHR 0x0A # take k (envelope_text B)"
  let ?c = "envelope_text A @ CHR 0x0A # envelope_text B
            @ CHR 0x0A # envelope_text C @ [CHR 0x0A]"
  have nk: "CHR 0x0A \<notin> set (take k (envelope_text B))"
    using encode_no_newline [of B] by (auto dest: in_set_takeD)
  have sp: "split_newline ?p = [envelope_text A, take k (envelope_text B)]"
    using split_newline_line [OF encode_no_newline, of A "take k (envelope_text B)"]
    by (simp add: split_newline_no_newline [OF nk])
  have sc: "split_newline ?c = [envelope_text A, envelope_text B, envelope_text C, []]"
    using split_newline_line [OF encode_no_newline, of A
            "envelope_text B @ CHR 0x0A # envelope_text C @ [CHR 0x0A]"]
          split_newline_line [OF encode_no_newline, of B "envelope_text C @ [CHR 0x0A]"]
          split_newline_line [OF encode_no_newline, of C "[]"]
    by simp
  have some: "snd (to_synthetic_message e i) = Some (the (snd (to_synthetic_message e i)))"
    if "deliverable_envelope e" for e i
    using that by (simp add: deliverable_envelope_def to_synthetic_message_def)
  have yp: "map Some (yielded (fst (process_lines (inbox_path cfg) (butlast (split_newline ?p)) (- 1))))
              = [snd (to_synthetic_message A (- 1))]"
    using some [OF A] by (simp add: sp process_encoded_line [OF A] del: process_lines.simps(2))
  have yc: "map Some (yielded (fst (process_lines (inbox_path cfg) (butlast (split_newline ?c)) (- 1))))
              = [snd (to_synthetic_message A (- 1)), snd (to_synthetic_message B (- 2)),
                 snd (to_synthetic_message C (- 3))]"
    using some [OF A] some [OF B] some [OF C]
    by (simp add: sc process_encoded_line [OF A] process_encoded_line [OF B]
          process_encoded_line [OF C] del: process_lines.simps(2))
  have pre: "is_prefix ?p ?c"
    using k by (simp add: is_prefix_def)
  have ao': "append_only (?p # replicate j ?p @ rest)" if "append_only (?p # rest)" for j rest
    using that by (rule append_only_repeat)
  obtain m where m: "n = Suc m"
    using n by (cases n) auto
  have ao: "append_only ([] # replicate n ?p @ rest)" if "append_only (?p # rest)" for rest
    using ao' [OF that, of m] by (simp add: m is_prefix_def)
  have run: "\<exists>events st. poll_swarm_inbox cfg (map Some contents) = Inr (events, st)
               \<and> yielded events
                   = yielded (fst (process_lines (inbox_path cfg)
                        (butlast (split_newline (last contents))) (- 1)))"
    if chain: "append_only ([] # contents)" and ne: "contents \<noteq> []" for contents
  proof -
    obtain events where ev:
      "poll_cycles cfg (map Some contents) (tailed (inbox_path cfg) [])
         = Inr (events, tailed (inbox_path cfg) (last ([] # contents)))"
      "fst (process_lines (inbox_path cfg) (butlast (split_newline [])) (- 1)) @ records events
         = fst (process_lines (inbox_path cfg) (butlast (split_newline (last ([] # contents)))) (- 1))"
      using poll_cycles_tailed [OF chain, of cfg] by blast
    have "yielded events = yielded (records events)"
      by (simp add: yielded_records)
    then show ?thesis
      using ev ne by (auto simp: poll_swarm_inbox_def tailed_empty)
  qed
  have c1: "append_only ([] # replicate n ?p)" "replicate n ?p \<noteq> []" "last (replicate n ?p) = ?p"
    using ao [of "[]"] m by simp_all
  have c2: "append_only ([] # replicate n ?p @ [?c])" "last (replicate n ?p @ [?c]) = ?c"
    using ao [of "[?c]"] pre by simp_all
  have r1: "map Some (replicate n ?p) = replicate n (Some ?p)"
    by simp
  have r2: "map Some (replicate n ?p @ [?c]) = replicate n (Some ?p) @ [Some ?c]"
    by simp
  obtain e1 s1 where e1: "poll_swarm_inbox cfg (map Some (replicate n ?p)) = Inr (e1, s1)"
    "yielded e1 = yielded (fst (process_lines (inbox_path cfg)
                     (butlast (split_newline (last (replicate n ?p)))) (- 1)))"
    using run [OF c1(1) c1(2)] by blast
  obtain e2 s2 where e2: "poll_swarm_inbox cfg (map Some (replicate n ?p @ [?c])) = Inr (e2, s2)"
    "yielded e2 = yielded (fst (process_lines (inbox_path cfg)
                     (butlast (split_newline (last (replicate n ?p @ [?c])))) (- 1)))"
    using run [OF c2(1)] by blast
  have g1: "poll_swarm_inbox cfg (replicate n (Some ?p)) = Inr (e1, s1)
            \<and> map Some (yielded e1) = [snd (to_synthetic_message A (- 1))]"
    using e1 yp unfolding c1(3) r1 by simp
  have g2: "poll_swarm_inbox cfg (replicate n (Some ?p) @ [Some ?c]) = Inr (e2, s2)
            \<and> map Some (yielded e2)
                = [snd (to_synthetic_message A (- 1)), snd (to_synthetic_message B (- 2)),
                   snd (to_synthetic_message C (- 3))]"
    using e2 yc unfolding c2(2) r2 by simp
  show ?thesis
  proof (intro conjI)
    show "\<exists>events st.
            poll_swarm_inbox cfg (replicate n (Some ?p)) = Inr (events, st)
            \<and> map Some (yielded events) = [snd (to_synthetic_message A (- 1))]"
      using g1 by (intro exI [of _ e1] exI [of _ s1])
    show "\<exists>events st.
            poll_swarm_inbox cfg (replicate n (Some ?p) @ [Some ?c]) = Inr (events, st)
            \<and> map Some (yielded events)
                = [snd (to_synthetic_message A (- 1)), snd (to_synthetic_message B (- 2)),
                   snd (to_synthetic_message C (- 3))]"
      using g2 by (intro exI [of _ e2] exI [of _ s2])
  qed
qed

lemma demo_deliverable:
  "deliverable_envelope demo_a" "deliverable_envelope demo_b" "deliverable_envelope demo_c"
  by code_simp+

lemma demo_messages:
  "\<exists>m. snd (to_synthetic_message demo_a i) = Some m \<and> msg_text m = ''first''"
  "\<exists>m. snd (to_synthetic_message demo_b i) = Some m \<and> msg_text m = ''second''"
  "\<exists>m. snd (to_synthetic_message demo_c i) = Some m \<and> msg_text m = ''third''"
  using demo_deliverable
  by (simp_all add: deliverable_envelope_def to_synthetic_message_def)
     (simp_all add: demo_a_def demo_b_def demo_c_def)

lemma demo_length: "20 \<le> length (envelope_text demo_b)"
  by code_simp

text \<open>
  C2 as stated fails. The queue file holds the complete record of \<open>demo_a\<close> and the first
  20 bytes of the record of \<open>demo_b\<close>; then the rest of \<open>demo_b\<close> and the record of
  \<open>demo_c\<close> are appended. The stream yields the messages of \<open>demo_a\<close>, \<open>demo_b\<close> and
  \<open>demo_c\<close>, not those of \<open>demo_a\<close> and \<open>demo_c\<close> alone. The records are the bytes the
  encoder returns for the three envelopes.
\<close>

theorem partial_record_counterexample:
  "encode_envelope demo_a = Inr (envelope_text demo_a)
   \<and> encode_envelope demo_b = Inr (envelope_text demo_b)
   \<and> encode_envelope demo_c = Inr (envelope_text demo_c)
   \<and> (\<exists>events st.
         poll_swarm_inbox demo_cfg [Some demo_partial, Some demo_complete] = Inr (events, st)
         \<and> map msg_text (yielded events) = [''first'', ''second'', ''third'']
         \<and> map msg_text (yielded events) \<noteq> [''first'', ''third''])"
proof -
  have enc: "encode_envelope demo_a = Inr (envelope_text demo_a)"
    "encode_envelope demo_b = Inr (envelope_text demo_b)"
    "encode_envelope demo_c = Inr (envelope_text demo_c)"
    using demo_deliverable by (simp_all add: deliverable_envelope_def encode_envelope_valid)
  have one: "(1::nat) \<le> 1"
    by simp
  have "\<exists>events st.
     poll_swarm_inbox demo_cfg
       (replicate 1 (Some (envelope_text demo_a @ CHR 0x0A # take 20 (envelope_text demo_b)))
        @ [Some (envelope_text demo_a @ CHR 0x0A # envelope_text demo_b
                 @ CHR 0x0A # envelope_text demo_c @ [CHR 0x0A])])
       = Inr (events, st)
     \<and> map Some (yielded events)
       = [snd (to_synthetic_message demo_a (- 1)), snd (to_synthetic_message demo_b (- 2)),
          snd (to_synthetic_message demo_c (- 3))]"
    using tail_partial_record [OF demo_deliverable demo_length one, of demo_cfg]
    by (rule conjunct2)
  then obtain events st where run:
    "poll_swarm_inbox demo_cfg
       (replicate 1 (Some (envelope_text demo_a @ CHR 0x0A # take 20 (envelope_text demo_b)))
        @ [Some (envelope_text demo_a @ CHR 0x0A # envelope_text demo_b
                 @ CHR 0x0A # envelope_text demo_c @ [CHR 0x0A])])
       = Inr (events, st)"
    "map Some (yielded events)
       = [snd (to_synthetic_message demo_a (- 1)), snd (to_synthetic_message demo_b (- 2)),
          snd (to_synthetic_message demo_c (- 3))]"
    by (elim exE conjE)
  obtain ma mb mc where m:
    "snd (to_synthetic_message demo_a (- 1)) = Some ma" "msg_text ma = ''first''"
    "snd (to_synthetic_message demo_b (- 2)) = Some mb" "msg_text mb = ''second''"
    "snd (to_synthetic_message demo_c (- 3)) = Some mc" "msg_text mc = ''third''"
    using demo_messages(1) [of "- 1"] demo_messages(2) [of "- 2"] demo_messages(3) [of "- 3"]
    by (elim exE conjE)
  have "map Some (yielded events) = map Some [ma, mb, mc]"
    using run(2) by (simp add: m)
  then have "yielded events = [ma, mb, mc]"
    by (simp only: inj_map_eq_map [OF inj_Some])
  then have "map msg_text (yielded events) = [''first'', ''second'', ''third'']"
    by (simp add: m)
  with run(1) have "\<exists>events st.
         poll_swarm_inbox demo_cfg [Some demo_partial, Some demo_complete] = Inr (events, st)
         \<and> map msg_text (yielded events) = [''first'', ''second'', ''third'']
         \<and> map msg_text (yielded events) \<noteq> [''first'', ''third'']"
    by (intro exI [of _ events] exI [of _ st]) (simp add: demo_partial_def demo_complete_def)
  with enc show ?thesis
    by simp
qed

text \<open>
  C2, amended. Let A, B and C be valid trigger envelopes with text that is not blank
  (valid: strings of well-formed text, integers within the limit of the codec). The
  encoder returns a record for each of them. The queue file holds the complete record of A and the first \<open>k\<close> bytes of the record of B,
  and the tailer polls it \<open>n \<ge> 1\<close> times: the stream yields the message of A, with id -1,
  and nothing else, so B stays invisible while its record is incomplete. When the rest of
  B and the complete record of C are then appended, the next poll brings the stream to
  exactly the messages of A, B and C, in this order, with the ids -1, -2 and -3.
\<close>

theorem partial_record_then_completed:
  assumes "deliverable_envelope A" and "deliverable_envelope B" and "deliverable_envelope C"
    and "k \<le> length (envelope_text B)" and "1 \<le> n"
  shows "encode_envelope A = Inr (envelope_text A)
       \<and> encode_envelope B = Inr (envelope_text B)
       \<and> encode_envelope C = Inr (envelope_text C)
       \<and> (\<exists>events st.
            poll_swarm_inbox cfg
              (replicate n (Some (envelope_text A @ CHR 0x0A # take k (envelope_text B))))
              = Inr (events, st)
            \<and> map Some (yielded events) = [snd (to_synthetic_message A (- 1))])
       \<and> (\<exists>events st.
            poll_swarm_inbox cfg
              (replicate n (Some (envelope_text A @ CHR 0x0A # take k (envelope_text B)))
               @ [Some (envelope_text A @ CHR 0x0A # envelope_text B
                        @ CHR 0x0A # envelope_text C @ [CHR 0x0A])])
              = Inr (events, st)
            \<and> map Some (yielded events)
                = [snd (to_synthetic_message A (- 1)), snd (to_synthetic_message B (- 2)),
                   snd (to_synthetic_message C (- 3))])"
  using assms tail_partial_record [OF assms, of cfg]
  by (simp add: deliverable_envelope_def encode_envelope_valid)

theorem partial_record_then_completed_witness:
  "deliverable_envelope demo_a \<and> deliverable_envelope demo_b \<and> deliverable_envelope demo_c
   \<and> 20 \<le> length (envelope_text demo_b) \<and> (1::nat) \<le> 2
   \<and> encode_envelope demo_a = Inr (envelope_text demo_a)
   \<and> encode_envelope demo_b = Inr (envelope_text demo_b)
   \<and> encode_envelope demo_c = Inr (envelope_text demo_c)
   \<and> (\<exists>events st.
         poll_swarm_inbox demo_cfg (replicate 2 (Some demo_partial)) = Inr (events, st)
         \<and> map Some (yielded events) = [snd (to_synthetic_message demo_a (- 1))])
   \<and> (\<exists>events st.
         poll_swarm_inbox demo_cfg (replicate 2 (Some demo_partial) @ [Some demo_complete])
           = Inr (events, st)
         \<and> map Some (yielded events)
             = [snd (to_synthetic_message demo_a (- 1)), snd (to_synthetic_message demo_b (- 2)),
                snd (to_synthetic_message demo_c (- 3))])"
proof -
  have two: "(1::nat) \<le> 2"
    by simp
  show ?thesis
    using partial_record_then_completed [OF demo_deliverable demo_length two, of demo_cfg]
      demo_deliverable demo_length
    unfolding demo_partial_def demo_complete_def by simp
qed

lemma demo_mixed_lines:
  "butlast (split_newline demo_mixed)
     = [envelope_text demo_control, envelope_text demo_a, envelope_text demo_blank,
        envelope_text demo_b]"
  unfolding demo_mixed_def
  using split_newline_line [OF encode_no_newline, of demo_control
          "envelope_text demo_a @ CHR 0x0A # envelope_text demo_blank
             @ CHR 0x0A # envelope_text demo_b @ [CHR 0x0A]"]
        split_newline_line [OF encode_no_newline, of demo_a
          "envelope_text demo_blank @ CHR 0x0A # envelope_text demo_b @ [CHR 0x0A]"]
        split_newline_line [OF encode_no_newline, of demo_blank
          "envelope_text demo_b @ [CHR 0x0A]"]
        split_newline_line [OF encode_no_newline, of demo_b "[]"]
  by simp

lemma demo_mixed_deliverable:
  "List.map_filter deliverable (butlast (split_newline demo_mixed)) = [demo_a, demo_b]"
proof -
  have v: "valid_envelope demo_control" "valid_envelope demo_a" "valid_envelope demo_blank"
    "valid_envelope demo_b"
    by code_simp+
  have i: "env_intent demo_control = Control"
    "env_intent demo_a = Trigger \<and> \<not> str_blank (env_text demo_a)"
    "env_intent demo_blank = Trigger \<and> str_blank (env_text demo_blank)"
    "env_intent demo_b = Trigger \<and> \<not> str_blank (env_text demo_b)"
    by code_simp+
  show ?thesis
    by (simp add: demo_mixed_lines List.map_filter_simps deliverable_text v i)
qed

text \<open>
  C4. \<^verbatim>\<open>_to_synthetic_message\<close> drops an envelope with intent control; it turns an envelope
  with intent trigger and text that is not blank into a message with the chat id, thread
  id, text and origin agent of the envelope, ingress source \<^verbatim>\<open>swarm\<close>, ingress intent
  \<^verbatim>\<open>trigger\<close> and the message id it is given; it drops a trigger envelope with empty or
  blank text, logging a debug record and raising nothing. Every run of
  \<^verbatim>\<open>poll_swarm_inbox\<close>, whatever the turns find at the path, returns, and the ids of the
  messages it yields are -1, -2, -3 and so on: negative, starting at -1, strictly
  decreasing. The loop yields these translations and nothing else: one pass of its
  \<^verbatim>\<open>for\<close> loop over any lines, starting at the id \<open>n\<close>, yields exactly the messages that
  \<^verbatim>\<open>_to_synthetic_message\<close> makes of the envelopes the lines decode to, trigger with text
  that is not blank, in the order of the lines and with the ids \<open>n\<close>, \<open>n - 1\<close> and so on;
  and a stream that tails a file which is only appended to yields exactly these messages
  for the complete lines of the file, with the ids -1, -2 and so on.
\<close>

theorem synthetic_message_translation:
  "(env_intent e = Control \<longrightarrow> to_synthetic_message e i = ([], None))
   \<and> (env_intent e = Trigger \<and> \<not> str_blank (env_text e) \<longrightarrow>
        to_synthetic_message e i =
          ([], Some \<lparr>msg_transport = ''telegram'',
                     msg_chat_id = env_chat_id e,
                     msg_message_id = i,
                     msg_text = env_text e,
                     msg_reply_to_message_id = None,
                     msg_reply_to_text = None,
                     msg_sender_id = None,
                     msg_thread_id = env_thread_id e,
                     msg_raw = JObj [(''swarm'', to_builtins e)],
                     msg_ingress_source = ''swarm'',
                     msg_ingress_intent = ''trigger'',
                     msg_origin_agent = env_origin_agent e\<rparr>))
   \<and> (env_intent e = Trigger \<and> str_blank (env_text e) \<longrightarrow>
        to_synthetic_message e i =
          ([Debug_skip_empty_text (env_event_id e) (env_chat_id e) (env_thread_id e)], None))
   \<and> (\<exists>events st.
         poll_swarm_inbox cfg files = Inr (events, st)
         \<and> map msg_message_id (yielded events)
             = map (\<lambda>j. - 1 - int j) [0..<length (yielded events)])
   \<and> map Some (yielded (fst (process_lines path lines n)))
       = translated n (List.map_filter deliverable lines)
   \<and> (append_only contents \<and> contents \<noteq> [] \<longrightarrow>
        (\<exists>events st.
           poll_swarm_inbox cfg (map Some contents) = Inr (events, st)
           \<and> map Some (yielded events)
               = translated (- 1)
                   (List.map_filter deliverable (butlast (split_newline (last contents))))))"
proof -
  obtain events st where run: "poll_swarm_inbox cfg files = Inr (events, st)"
    using poll_cycles_total [of cfg files initial_state] by (auto simp: poll_swarm_inbox_def)
  have "map msg_message_id (yielded events) = descending (- 1) (length (yielded events))"
    using poll_cycles_ids [of cfg files initial_state events st] run
    by (simp add: poll_swarm_inbox_def initial_state_def)
  with run have ids: "\<exists>events st.
         poll_swarm_inbox cfg files = Inr (events, st)
         \<and> map msg_message_id (yielded events)
             = map (\<lambda>j. - 1 - int j) [0..<length (yielded events)]"
    by (auto simp: descending_def)
  have stream: "\<exists>events st.
           poll_swarm_inbox cfg (map Some contents) = Inr (events, st)
           \<and> map Some (yielded events)
               = translated (- 1)
                   (List.map_filter deliverable (butlast (split_newline (last contents))))"
    if "append_only contents" "contents \<noteq> []"
    using poll_append_only_yielded [OF that, of cfg]
    by (auto simp: process_lines_translated)
  show ?thesis
    using ids stream
    by (simp add: to_synthetic_message_def intent_name_def process_lines_translated)
qed

theorem synthetic_message_translation_witness:
  "to_synthetic_message demo_control (- 1) = ([], None)
   \<and> to_synthetic_message demo_a (- 1) =
       ([], Some \<lparr>msg_transport = ''telegram'', msg_chat_id = 123, msg_message_id = - 1,
                  msg_text = ''first'', msg_reply_to_message_id = None,
                  msg_reply_to_text = None, msg_sender_id = None, msg_thread_id = Some 19,
                  msg_raw = JObj [(''swarm'', to_builtins demo_a)],
                  msg_ingress_source = ''swarm'', msg_ingress_intent = ''trigger'',
                  msg_origin_agent = Some ''manager''\<rparr>)
   \<and> to_synthetic_message demo_blank (- 1) = ([Debug_skip_empty_text ''a1'' 123 (Some 19)], None)
   \<and> (\<exists>events st.
         poll_swarm_inbox demo_cfg [None, Some demo_partial, Some demo_complete] = Inr (events, st)
         \<and> map msg_message_id (yielded events)
             = map (\<lambda>j. - 1 - int j) [0..<length (yielded events)])
   \<and> append_only [demo_mixed]
   \<and> (\<exists>events st.
         poll_swarm_inbox demo_cfg [Some demo_mixed] = Inr (events, st)
         \<and> yielded events =
             [\<lparr>msg_transport = ''telegram'', msg_chat_id = 123, msg_message_id = - 1,
               msg_text = ''first'', msg_reply_to_message_id = None,
               msg_reply_to_text = None, msg_sender_id = None, msg_thread_id = Some 19,
               msg_raw = JObj [(''swarm'', to_builtins demo_a)],
               msg_ingress_source = ''swarm'', msg_ingress_intent = ''trigger'',
               msg_origin_agent = Some ''manager''\<rparr>,
              \<lparr>msg_transport = ''telegram'', msg_chat_id = 123, msg_message_id = - 2,
               msg_text = ''second'', msg_reply_to_message_id = None,
               msg_reply_to_text = None, msg_sender_id = None, msg_thread_id = Some 19,
               msg_raw = JObj [(''swarm'', to_builtins demo_b)],
               msg_ingress_source = ''swarm'', msg_ingress_intent = ''trigger'',
               msg_origin_agent = Some ''manager''\<rparr>])"
proof -
  have a: "env_intent demo_control = Control"
    by (simp add: demo_control_def demo_a_def)
  have b: "env_intent demo_a = Trigger \<and> \<not> str_blank (env_text demo_a)"
    using demo_deliverable(1) by (simp add: deliverable_envelope_def)
  have b2: "env_intent demo_b = Trigger \<and> \<not> str_blank (env_text demo_b)"
    using demo_deliverable(2) by (simp add: deliverable_envelope_def)
  have c: "env_intent demo_blank = Trigger \<and> str_blank (env_text demo_blank)"
    by code_simp
  have ao: "append_only [demo_mixed] \<and> [demo_mixed] \<noteq> []"
    by simp
  have first: "to_synthetic_message demo_control (- 1) = ([], None)
   \<and> to_synthetic_message demo_a (- 1) =
       ([], Some \<lparr>msg_transport = ''telegram'', msg_chat_id = 123, msg_message_id = - 1,
                  msg_text = ''first'', msg_reply_to_message_id = None,
                  msg_reply_to_text = None, msg_sender_id = None, msg_thread_id = Some 19,
                  msg_raw = JObj [(''swarm'', to_builtins demo_a)],
                  msg_ingress_source = ''swarm'', msg_ingress_intent = ''trigger'',
                  msg_origin_agent = Some ''manager''\<rparr>)
   \<and> to_synthetic_message demo_blank (- 1) = ([Debug_skip_empty_text ''a1'' 123 (Some 19)], None)
   \<and> (\<exists>events st.
         poll_swarm_inbox demo_cfg [None, Some demo_partial, Some demo_complete] = Inr (events, st)
         \<and> map msg_message_id (yielded events)
             = map (\<lambda>j. - 1 - int j) [0..<length (yielded events)])"
    using synthetic_message_translation [of demo_control "- 1" demo_cfg
            "[None, Some demo_partial, Some demo_complete]"]
          synthetic_message_translation [of demo_a "- 1" demo_cfg "[]"]
          synthetic_message_translation [of demo_blank "- 1" demo_cfg "[]"]
          a b c
    by (simp add: demo_a_def demo_blank_def)
  have tb: "to_synthetic_message demo_b (- 2) =
       ([], Some \<lparr>msg_transport = ''telegram'', msg_chat_id = 123, msg_message_id = - 2,
                  msg_text = ''second'', msg_reply_to_message_id = None,
                  msg_reply_to_text = None, msg_sender_id = None, msg_thread_id = Some 19,
                  msg_raw = JObj [(''swarm'', to_builtins demo_b)],
                  msg_ingress_source = ''swarm'', msg_ingress_intent = ''trigger'',
                  msg_origin_agent = Some ''manager''\<rparr>)"
    using synthetic_message_translation [of demo_b "- 2" demo_cfg "[]"] b2
    by (simp add: demo_a_def demo_b_def)
  have "\<exists>events st.
           poll_swarm_inbox demo_cfg (map Some [demo_mixed]) = Inr (events, st)
           \<and> map Some (yielded events)
               = translated (- 1)
                   (List.map_filter deliverable (butlast (split_newline (last [demo_mixed]))))"
    using synthetic_message_translation [where contents = "[demo_mixed]" and cfg = demo_cfg] ao
    by blast
  then obtain events st where run:
    "poll_swarm_inbox demo_cfg [Some demo_mixed] = Inr (events, st)"
    "map Some (yielded events) = translated (- 1) [demo_a, demo_b]"
    by (auto simp: demo_mixed_deliverable)
  have "map Some (yielded events)
          = map Some [the (snd (to_synthetic_message demo_a (- 1))),
                      the (snd (to_synthetic_message demo_b (- 2)))]"
    using run(2) first tb by simp
  then have "yielded events
          = [the (snd (to_synthetic_message demo_a (- 1))),
             the (snd (to_synthetic_message demo_b (- 2)))]"
    by (simp only: inj_map_eq_map [OF inj_Some])
  with run(1) first tb have "\<exists>events st.
         poll_swarm_inbox demo_cfg [Some demo_mixed] = Inr (events, st)
         \<and> yielded events =
             [\<lparr>msg_transport = ''telegram'', msg_chat_id = 123, msg_message_id = - 1,
               msg_text = ''first'', msg_reply_to_message_id = None,
               msg_reply_to_text = None, msg_sender_id = None, msg_thread_id = Some 19,
               msg_raw = JObj [(''swarm'', to_builtins demo_a)],
               msg_ingress_source = ''swarm'', msg_ingress_intent = ''trigger'',
               msg_origin_agent = Some ''manager''\<rparr>,
              \<lparr>msg_transport = ''telegram'', msg_chat_id = 123, msg_message_id = - 2,
               msg_text = ''second'', msg_reply_to_message_id = None,
               msg_reply_to_text = None, msg_sender_id = None, msg_thread_id = Some 19,
               msg_raw = JObj [(''swarm'', to_builtins demo_b)],
               msg_ingress_source = ''swarm'', msg_ingress_intent = ''trigger'',
               msg_origin_agent = Some ''manager''\<rparr>]"
    by (intro exI [of _ events] exI [of _ st]) simp
  with first ao show ?thesis
    by simp
qed

text \<open>
  C5. The turns of the tailer find the contents \<open>contents\<close> of a file that is only
  appended to. Then the run returns; its events, sleeps apart, are those of one pass over
  the complete lines of the last content, so the messages come in file order; the messages
  yielded carry exactly the envelopes that the complete lines deliver, each line once, in
  the order of the lines; the offset ends at the end of the file and the pending fragment
  is what follows the last line feed. In each turn that finds the file at least as long as
  the stored offset, the offset advances by exactly the number of bytes read.
\<close>

theorem tail_order_no_duplicates:
  assumes "append_only contents" and "contents \<noteq> []"
  shows "(\<exists>events st.
            poll_swarm_inbox cfg (map Some contents) = Inr (events, st)
            \<and> records events
                = fst (process_lines (inbox_path cfg) (butlast (split_newline (last contents))) (- 1))
            \<and> map msg_raw (yielded events)
                = map (\<lambda>e. JObj [(''swarm'', to_builtins e)])
                    (List.map_filter deliverable (butlast (split_newline (last contents))))
            \<and> st_offset st = length (last contents)
            \<and> st_remainder st = last (split_newline (last contents)))
       \<and> (st_offset st0 \<le> length content \<longrightarrow>
            (\<exists>events st'.
               poll_cycle cfg (Some content) st0 = Inr (events, st')
               \<and> st_offset st' = st_offset st0 + length (drop (st_offset st0) content)))"
proof -
  have chain: "append_only ([] # contents)"
    using assms by (cases contents) (simp_all add: is_prefix_def)
  obtain events where ev:
    "poll_cycles cfg (map Some contents) (tailed (inbox_path cfg) [])
       = Inr (events, tailed (inbox_path cfg) (last ([] # contents)))"
    "fst (process_lines (inbox_path cfg) (butlast (split_newline [])) (- 1)) @ records events
       = fst (process_lines (inbox_path cfg) (butlast (split_newline (last ([] # contents)))) (- 1))"
    using poll_cycles_tailed [OF chain, of cfg] by blast
  have l: "last ([] # contents) = last contents"
    using assms(2) by simp
  have r: "records events
             = fst (process_lines (inbox_path cfg) (butlast (split_newline (last contents))) (- 1))"
    using ev(2) assms(2) by simp
  have y: "yielded events
             = yielded (fst (process_lines (inbox_path cfg)
                               (butlast (split_newline (last contents))) (- 1)))"
    using r yielded_records [of events] by simp
  have first: "\<exists>events st.
            poll_swarm_inbox cfg (map Some contents) = Inr (events, st)
            \<and> records events
                = fst (process_lines (inbox_path cfg) (butlast (split_newline (last contents))) (- 1))
            \<and> map msg_raw (yielded events)
                = map (\<lambda>e. JObj [(''swarm'', to_builtins e)])
                    (List.map_filter deliverable (butlast (split_newline (last contents))))
            \<and> st_offset st = length (last contents)
            \<and> st_remainder st = last (split_newline (last contents))"
    using ev(1) r assms(2)
    by (intro exI [of _ events] exI [of _ "tailed (inbox_path cfg) (last contents)"])
       (simp add: poll_swarm_inbox_def initial_state_def y process_lines_deliverable tailed_def)
  have second: "\<exists>events st'.
               poll_cycle cfg (Some content) st0 = Inr (events, st')
               \<and> st_offset st' = st_offset st0 + length (drop (st_offset st0) content)"
    if "st_offset st0 \<le> length content"
    using that by (simp add: poll_cycle_existing Let_def)
  show ?thesis
    using first second by blast
qed

theorem tail_order_no_duplicates_witness:
  "append_only [demo_partial, demo_complete] \<and> [demo_partial, demo_complete] \<noteq> []
   \<and> (\<exists>events st.
         poll_swarm_inbox demo_cfg (map Some [demo_partial, demo_complete]) = Inr (events, st)
         \<and> records events
             = fst (process_lines (inbox_path demo_cfg)
                      (butlast (split_newline (last [demo_partial, demo_complete]))) (- 1))
         \<and> map msg_raw (yielded events)
             = map (\<lambda>e. JObj [(''swarm'', to_builtins e)])
                 (List.map_filter deliverable
                    (butlast (split_newline (last [demo_partial, demo_complete]))))
         \<and> st_offset st = length (last [demo_partial, demo_complete])
         \<and> st_remainder st = last (split_newline (last [demo_partial, demo_complete])))
   \<and> st_offset initial_state \<le> length demo_partial
   \<and> (\<exists>events st'.
         poll_cycle demo_cfg (Some demo_partial) initial_state = Inr (events, st')
         \<and> st_offset st' = st_offset initial_state + length (drop (st_offset initial_state) demo_partial))"
proof -
  have chain: "append_only [demo_partial, demo_complete]"
    using demo_length by (simp add: is_prefix_def demo_partial_def demo_complete_def)
  have ne: "[demo_partial, demo_complete] \<noteq> []"
    by simp
  have le: "st_offset initial_state \<le> length demo_partial"
    by (simp add: initial_state_def)
  show ?thesis
    using tail_order_no_duplicates [OF chain ne, of demo_cfg initial_state demo_partial] chain le
    by simp
qed

text \<open>
  C6. A line whose JSON object has a member outside the fields of the envelope fails to
  decode. A segment that is not blank and fails to decode is logged as a warning and
  skipped: the loop goes on with the next segment and the same next message id, as if the
  segment were not there. A blank segment is skipped with no log record. A turn that finds
  the file always returns, and the offset and the pending fragment it stores depend on the
  bytes read alone, not on what decoded.
\<close>

theorem malformed_records_skipped:
  "(json_loads bs = Some (JObj ms) \<and> k \<in> fst ` set ms \<and> k \<notin> set known_fields
      \<longrightarrow> decode_envelope bs = Inl DecodeError)
   \<and> (bytes_strip line \<noteq> [] \<and> decode_envelope (bytes_strip line) = Inl exc
      \<longrightarrow> process_lines path (line # lines) n
            = (Log (Warning_decode_failed path) # fst (process_lines path lines n),
               snd (process_lines path lines n)))
   \<and> (bytes_strip line = []
      \<longrightarrow> process_lines path (line # lines) n = process_lines path lines n)
   \<and> (\<exists>events n'.
         poll_cycle cfg (Some content) st
           = Inr (events,
                  \<lparr>st_offset =
                     (if length content < st_offset st then 0 else st_offset st)
                     + length (drop (if length content < st_offset st then 0 else st_offset st)
                                 content),
                   st_remainder =
                     (if drop (if length content < st_offset st then 0 else st_offset st) content
                           \<noteq> []
                      then last (split_newline
                             (st_remainder st
                              @ drop (if length content < st_offset st then 0 else st_offset st)
                                  content))
                      else st_remainder st),
                   st_next_message_id = n'\<rparr>))"
proof -
  have a: "decode_envelope bs = Inl DecodeError"
    if "json_loads bs = Some (JObj ms)" "k \<in> fst ` set ms" "k \<notin> set known_fields"
  proof -
    from that(2) obtain v where "(k, v) \<in> set ms" by auto
    moreover have "\<not> field_ok (k, v)"
      using that(3) by (simp add: field_ok_def)
    ultimately have "\<not> list_all field_ok ms"
      by (auto simp: list_all_iff)
    then show ?thesis
      using that(1) by (simp add: decode_envelope_def envelope_of_json_def)
  qed
  have b: "process_lines path (line # lines) n
            = (Log (Warning_decode_failed path) # fst (process_lines path lines n),
               snd (process_lines path lines n))"
    if "bytes_strip line \<noteq> []" "decode_envelope (bytes_strip line) = Inl exc"
    using that by (simp add: Let_def split: prod.splits)
  have d: "\<exists>events n'.
         poll_cycle cfg (Some content) st
           = Inr (events,
                  \<lparr>st_offset =
                     (if length content < st_offset st then 0 else st_offset st)
                     + length (drop (if length content < st_offset st then 0 else st_offset st)
                                 content),
                   st_remainder =
                     (if drop (if length content < st_offset st then 0 else st_offset st) content
                           \<noteq> []
                      then last (split_newline
                             (st_remainder st
                              @ drop (if length content < st_offset st then 0 else st_offset st)
                                  content))
                      else st_remainder st),
                   st_next_message_id = n'\<rparr>)"
    by (cases st) (simp add: poll_cycle_existing Let_def)
  show ?thesis
    using a b d by simp
qed

theorem malformed_records_skipped_witness:
  "json_loads demo_unknown
     = Some (JObj [(''event_id'', JStr ''x''), (''intent'', JStr ''trigger''),
                   (''chat_id'', JInt 5), (''text'', JStr ''hi''), (''extra'', JInt 1)])
   \<and> ''extra'' \<notin> set known_fields
   \<and> decode_envelope demo_unknown = Inl DecodeError
   \<and> bytes_strip demo_unknown \<noteq> []
   \<and> process_lines ''inbox.jsonl'' [demo_unknown, envelope_text demo_a] (- 1)
       = (Log (Warning_decode_failed ''inbox.jsonl'')
            # fst (process_lines ''inbox.jsonl'' [envelope_text demo_a] (- 1)),
          snd (process_lines ''inbox.jsonl'' [envelope_text demo_a] (- 1)))
   \<and> bytes_strip [CHR '' '', CHR 0x0D] = []
   \<and> process_lines ''inbox.jsonl'' [[CHR '' '', CHR 0x0D], envelope_text demo_a] (- 1)
       = process_lines ''inbox.jsonl'' [envelope_text demo_a] (- 1)
   \<and> (\<exists>events n'.
         poll_cycle demo_cfg (Some (demo_unknown @ [CHR 0x0A])) initial_state
           = Inr (events,
                  \<lparr>st_offset = length (demo_unknown @ [CHR 0x0A]), st_remainder = [],
                   st_next_message_id = n'\<rparr>))"
proof -
  have l: "json_loads demo_unknown
     = Some (JObj [(''event_id'', JStr ''x''), (''intent'', JStr ''trigger''),
                   (''chat_id'', JInt 5), (''text'', JStr ''hi''), (''extra'', JInt 1)])"
    by code_simp
  have k: "''extra'' \<notin> set known_fields"
    by (simp add: known_fields_def)
  have s: "bytes_strip demo_unknown = demo_unknown" "demo_unknown \<noteq> []"
    by code_simp+
  have b: "bytes_strip [CHR '' '', CHR 0x0D] = []"
    by code_simp
  have nl: "CHR 0x0A \<notin> set demo_unknown"
    by code_simp
  have d: "decode_envelope demo_unknown = Inl DecodeError"
    using malformed_records_skipped
            [where bs = demo_unknown and k = "''extra''" and ms = "[(''event_id'', JStr ''x''), (''intent'', JStr ''trigger''),
                   (''chat_id'', JInt 5), (''text'', JStr ''hi''), (''extra'', JInt 1)]"]
          l k
    by simp
  have sp: "last (split_newline (demo_unknown @ [CHR 0x0A])) = []"
    using split_newline_line [OF nl, of "[]"] by simp
  show ?thesis
    using malformed_records_skipped
            [where bs = demo_unknown and k = "''extra''" and ms = "[(''event_id'', JStr ''x''), (''intent'', JStr ''trigger''),
                   (''chat_id'', JInt 5), (''text'', JStr ''hi''), (''extra'', JInt 1)]"
               and line = demo_unknown and exc = DecodeError and path = "''inbox.jsonl''"
               and lines = "[envelope_text demo_a]" and n = "- 1" and cfg = demo_cfg
               and content = "demo_unknown @ [CHR 0x0A]" and st = initial_state]
          malformed_records_skipped
            [where bs = demo_unknown and k = "''extra''" and ms = "[(''event_id'', JStr ''x''), (''intent'', JStr ''trigger''),
                   (''chat_id'', JInt 5), (''text'', JStr ''hi''), (''extra'', JInt 1)]"
               and line = "[CHR '' '', CHR 0x0D]" and exc = DecodeError
               and path = "''inbox.jsonl''" and lines = "[envelope_text demo_a]"
               and n = "- 1" and cfg = demo_cfg and content = "[]" and st = initial_state]
          l k s b d sp
    by (simp add: initial_state_def del: process_lines.simps)
qed

text \<open>
  C7. A turn that finds no file at the path raises nothing: it resets the offset to 0 and
  the pending fragment to empty, yields nothing, sleeps, and the loop goes on. A run whose
  first \<open>k\<close> turns find no file yields nothing in them and is in the initial state after
  them; what it yields afterwards is what a run started on the later turns yields, so
  records appear only once the file exists and has been appended to.
\<close>

theorem poll_missing_file:
  "poll_cycle cfg None st
     = Inr ([Sleep (poll_interval_s cfg)], st\<lparr>st_offset := 0, st_remainder := []\<rparr>)
   \<and> poll_swarm_inbox cfg (replicate k None)
       = Inr (replicate k (Sleep (poll_interval_s cfg)), initial_state)
   \<and> yielded (replicate k (Sleep (poll_interval_s cfg))) = []
   \<and> poll_swarm_inbox cfg (replicate k None @ files)
       = (case poll_swarm_inbox cfg files of
            Inl exc \<Rightarrow> Inl exc
          | Inr (events, st') \<Rightarrow> Inr (replicate k (Sleep (poll_interval_s cfg)) @ events, st'))"
proof -
  have r: "initial_state\<lparr>st_offset := 0, st_remainder := []\<rparr> = initial_state"
    by (simp add: initial_state_def)
  have a: "poll_cycle cfg None st
     = Inr ([Sleep (poll_interval_s cfg)], st\<lparr>st_offset := 0, st_remainder := []\<rparr>)"
    by (simp add: poll_cycle_def read_chunk_def)
  have b: "poll_swarm_inbox cfg (replicate k None @ fs)
       = (case poll_swarm_inbox cfg fs of
            Inl exc \<Rightarrow> Inl exc
          | Inr (events, st') \<Rightarrow> Inr (replicate k (Sleep (poll_interval_s cfg)) @ events, st'))" for fs
    unfolding poll_swarm_inbox_def poll_missing_cycles by (simp add: r)
  show ?thesis
    using a b [of files] b [of "[]"] by (simp add: yielded_sleeps poll_swarm_inbox_def)
qed

theorem poll_missing_file_witness:
  "poll_cycle demo_cfg None \<lparr>st_offset = 7, st_remainder = ''xy'', st_next_message_id = - 3\<rparr>
     = Inr ([Sleep (1 / 100)], \<lparr>st_offset = 0, st_remainder = [], st_next_message_id = - 3\<rparr>)
   \<and> poll_swarm_inbox demo_cfg [None, None, None]
       = Inr ([Sleep (1 / 100), Sleep (1 / 100), Sleep (1 / 100)], initial_state)"
  using poll_missing_file
          [of demo_cfg "\<lparr>st_offset = 7, st_remainder = ''xy'', st_next_message_id = - 3\<rparr>" 3 "[]"]
  by (simp add: demo_cfg_def numeral_3_eq_3)

text \<open>
  C8. For every valid envelope, the encoder returns bytes, and decoding these bytes gives
  the envelope back. Valid means: every string field is well-formed text and every
  integer field has at most 4300 digits. At an integer of more digits the encoder raises
  (\<open>encode_envelope_raises\<close>), and there is nothing to decode.
\<close>

theorem envelope_round_trip:
  "valid_envelope e \<Longrightarrow>
     \<exists>encoded. encode_envelope e = Inr encoded \<and> decode_envelope encoded = Inr e"
  by (simp add: encode_envelope_valid decode_encode)

theorem envelope_round_trip_witness:
  "valid_envelope demo_quoted
   \<and> (\<exists>encoded. encode_envelope demo_quoted = Inr encoded
                  \<and> decode_envelope encoded = Inr demo_quoted)"
proof -
  have v: "valid_envelope demo_quoted"
    by code_simp
  from envelope_round_trip [OF v] v show ?thesis
    by simp
qed

text \<open>
  C9. When the file is shorter than the stored offset, \<^verbatim>\<open>_read_chunk\<close> reads from 0: it
  returns the whole file and its length as the new offset. The loop does not clear the
  pending fragment: when the file is not empty, the fragment of the earlier turn is put in
  front of the bytes read and the two are split together; when it is empty, the fragment
  stays as it is.
\<close>

theorem read_chunk_truncated:
  assumes "length content < st_offset st"
  shows "read_chunk (Some content) (st_offset st) = Inr (content, length content)
       \<and> poll_cycle cfg (Some content) st =
           (if content \<noteq> []
            then Inr (fst (process_lines (inbox_path cfg)
                             (butlast (split_newline (st_remainder st @ content)))
                             (st_next_message_id st))
                        @ [Sleep (poll_interval_s cfg)],
                      \<lparr>st_offset = length content,
                       st_remainder = last (split_newline (st_remainder st @ content)),
                       st_next_message_id =
                         snd (process_lines (inbox_path cfg)
                                (butlast (split_newline (st_remainder st @ content)))
                                (st_next_message_id st))\<rparr>)
            else Inr ([Sleep (poll_interval_s cfg)], st\<lparr>st_offset := 0\<rparr>))"
  using assms by (simp add: read_chunk_def poll_cycle_existing Let_def)

theorem read_chunk_truncated_witness:
  "length [CHR ''z'', CHR 0x0A]
     < st_offset \<lparr>st_offset = 10, st_remainder = ''xy'', st_next_message_id = - 1\<rparr>
   \<and> read_chunk (Some [CHR ''z'', CHR 0x0A]) 10 = Inr ([CHR ''z'', CHR 0x0A], 2)
   \<and> split_newline (''xy'' @ [CHR ''z'', CHR 0x0A]) = [''xyz'', []]
   \<and> poll_cycle demo_cfg (Some [CHR ''z'', CHR 0x0A])
         \<lparr>st_offset = 10, st_remainder = ''xy'', st_next_message_id = - 1\<rparr>
       = Inr ([Log (Warning_decode_failed ''inbox.jsonl''), Sleep (1 / 100)],
              \<lparr>st_offset = 2, st_remainder = [], st_next_message_id = - 1\<rparr>)"
proof -
  have lt: "length [CHR ''z'', CHR 0x0A]
     < st_offset \<lparr>st_offset = 10, st_remainder = ''xy'', st_next_message_id = - 1\<rparr>"
    by simp
  have s: "bytes_strip ''xyz'' = ''xyz''"
    by code_simp
  have d: "decode_envelope ''xyz'' = Inl DecodeError"
    by code_simp
  show ?thesis
    using read_chunk_truncated [OF lt, of demo_cfg] s d
    by (simp add: demo_cfg_def)
qed

section \<open>Theorems: topic reconciliation\<close>

lemmas ensure_defs =
  ensure_topic_thread_def create_and_report_def bind_and_report_def snapshot_to_status_def
  Let_def

lemmas world_defs =
  build_topic_title_def platform_def state_store_def lagging_store_def fresh_world_def
  drifted_world_def

lemma ensure_first_call:
  assumes fresh: "fst (find_thread_for_context store chat_id
                    \<lparr>ctx_project = Some project_key, ctx_branch = branch\<rparr> w) = None"
    and create_ok: "fst (create_forum_topic bot' chat_id (build_topic_title project_alias branch)
                      (snd (find_thread_for_context store chat_id
                         \<lparr>ctx_project = Some project_key, ctx_branch = branch\<rparr> w))) = Some topic"
    and store_ok: "\<And>t wa wb snap. get_thread store chat_id t wa = (Some snap, wb) \<Longrightarrow> snap_thread_id snap = t"
  shows "outcome (fst (ensure_topic_thread bot' store chat_id project_key project_alias branch bind_state w))
           = Some (message_thread_id topic, True)
       \<and> length (filter is_create_forum_topic
            (fst (snd (ensure_topic_thread bot' store chat_id project_key project_alias branch bind_state w)))) = 1"
  using assms
  by (auto simp: ensure_defs outcome_def split: prod.splits option.splits if_splits)

lemma ensure_reuse_call:
  assumes bound: "fst (find_thread_for_context store chat_id
                    \<lparr>ctx_project = Some project_key, ctx_branch = branch\<rparr> w) = Some T"
    and edit_ok: "fst (edit_forum_topic bot' chat_id T (build_topic_title project_alias branch)
                      (snd (find_thread_for_context store chat_id
                         \<lparr>ctx_project = Some project_key, ctx_branch = branch\<rparr> w)))"
    and store_ok: "\<And>t wa wb snap. get_thread store chat_id t wa = (Some snap, wb) \<Longrightarrow> snap_thread_id snap = t"
  shows "outcome (fst (ensure_topic_thread bot' store chat_id project_key project_alias branch bind_state w))
           = Some (T, False)
       \<and> filter is_create_forum_topic
            (fst (snd (ensure_topic_thread bot' store chat_id project_key project_alias branch bind_state w))) = []"
  using assms
  by (auto simp: ensure_defs outcome_def split: prod.splits option.splits if_splits)

lemma ensure_repeatedly_Suc:
  "ensure_repeatedly (Suc n) bot' store chat_id project_key project_alias branch bind_state w =
     (let r = ensure_repeatedly n bot' store chat_id project_key project_alias branch bind_state w;
          e = ensure_topic_thread bot' store chat_id project_key project_alias branch bind_state (snd (snd r))
      in (fst r @ [fst e], fst (snd r) @ fst (snd e), snd (snd e)))"
  by (simp add: Let_def split: prod.splits)

lemma state_store_get_thread:
  "get_thread state_store chat_id t wa = (Some snap, wb) \<Longrightarrow> snap_thread_id snap = t"
  by (auto simp: state_store_def split: option.splits)

text \<open>
  C1. Idempotence of \<^verbatim>\<open>ensure_topic_thread\<close>. Take any collaborators, any chat id, project
  key, project alias, branch and \<^verbatim>\<open>bind_state\<close>, and call \<^verbatim>\<open>ensure_topic_thread\<close> \<open>n\<close>
  times in a row (\<open>n \<ge> 1\<close>) with these arguments, starting in a world where the store has
  no thread for the context. The external resource is healthy: \<^verbatim>\<open>create_forum_topic\<close>
  succeeds in the first call and returns \<open>topic\<close>; after the first call and after every
  later one, \<^verbatim>\<open>find_thread_for_context\<close> returns the thread of \<open>topic\<close> and
  \<^verbatim>\<open>edit_forum_topic\<close> succeeds on it; and \<^verbatim>\<open>get_thread\<close> answers with a snapshot of the
  thread it was asked for. Then the first call returns \<^verbatim>\<open>created = True\<close> with the thread
  id of \<open>topic\<close>, every later call returns \<^verbatim>\<open>created = False\<close> with the same thread id, and
  \<^verbatim>\<open>create_forum_topic\<close> is called exactly once over all \<open>n\<close> calls.
\<close>

theorem ensure_topic_thread_idempotent:
  assumes fresh: "fst (find_thread_for_context store chat_id
                    \<lparr>ctx_project = Some project_key, ctx_branch = branch\<rparr> w) = None"
    and create_ok: "fst (create_forum_topic bot' chat_id (build_topic_title project_alias branch)
                      (snd (find_thread_for_context store chat_id
                         \<lparr>ctx_project = Some project_key, ctx_branch = branch\<rparr> w))) = Some topic"
    and store_ok: "\<And>t wa wb snap. get_thread store chat_id t wa = (Some snap, wb) \<Longrightarrow> snap_thread_id snap = t"
    and bound: "\<And>k. 1 \<le> k \<Longrightarrow> k < n \<Longrightarrow>
                  fst (find_thread_for_context store chat_id
                         \<lparr>ctx_project = Some project_key, ctx_branch = branch\<rparr>
                         (snd (snd (ensure_repeatedly k bot' store chat_id project_key project_alias
                                      branch bind_state w)))) = Some (message_thread_id topic)"
    and edit_ok: "\<And>k. 1 \<le> k \<Longrightarrow> k < n \<Longrightarrow>
                  fst (edit_forum_topic bot' chat_id (message_thread_id topic)
                         (build_topic_title project_alias branch)
                         (snd (find_thread_for_context store chat_id
                                 \<lparr>ctx_project = Some project_key, ctx_branch = branch\<rparr>
                                 (snd (snd (ensure_repeatedly k bot' store chat_id project_key
                                              project_alias branch bind_state w))))))"
    and calls: "1 \<le> n"
  shows "map outcome (fst (ensure_repeatedly n bot' store chat_id project_key project_alias branch
                             bind_state w))
           = Some (message_thread_id topic, True) # replicate (n - 1) (Some (message_thread_id topic, False))
       \<and> length (filter is_create_forum_topic
                   (fst (snd (ensure_repeatedly n bot' store chat_id project_key project_alias branch
                                bind_state w)))) = 1"
  using calls bound edit_ok
proof (induction n rule: nat_induct_at_least)
  case base
  have first: "outcome (fst (ensure_topic_thread bot' store chat_id project_key project_alias branch bind_state w))
           = Some (message_thread_id topic, True)
       \<and> length (filter is_create_forum_topic
            (fst (snd (ensure_topic_thread bot' store chat_id project_key project_alias branch bind_state w)))) = 1"
    using fresh create_ok store_ok by (rule ensure_first_call)
  then show ?case
    by (simp add: case_prod_unfold Let_def)
next
  case (Suc m)
  have IH: "map outcome (fst (ensure_repeatedly m bot' store chat_id project_key project_alias branch
                             bind_state w))
           = Some (message_thread_id topic, True) # replicate (m - 1) (Some (message_thread_id topic, False))
       \<and> length (filter is_create_forum_topic
                   (fst (snd (ensure_repeatedly m bot' store chat_id project_key project_alias branch
                                bind_state w)))) = 1"
    using Suc.IH Suc.prems by simp
  have step: "outcome (fst (ensure_topic_thread bot' store chat_id project_key project_alias branch bind_state
                 (snd (snd (ensure_repeatedly m bot' store chat_id project_key project_alias branch bind_state w)))))
           = Some (message_thread_id topic, False)
       \<and> filter is_create_forum_topic
            (fst (snd (ensure_topic_thread bot' store chat_id project_key project_alias branch bind_state
                 (snd (snd (ensure_repeatedly m bot' store chat_id project_key project_alias branch bind_state w)))))) = []"
  proof (rule ensure_reuse_call)
    show "fst (find_thread_for_context store chat_id \<lparr>ctx_project = Some project_key, ctx_branch = branch\<rparr>
            (snd (snd (ensure_repeatedly m bot' store chat_id project_key project_alias branch bind_state w))))
          = Some (message_thread_id topic)"
      using Suc.hyps Suc.prems(1) [of m] by simp
    show "fst (edit_forum_topic bot' chat_id (message_thread_id topic) (build_topic_title project_alias branch)
            (snd (find_thread_for_context store chat_id \<lparr>ctx_project = Some project_key, ctx_branch = branch\<rparr>
              (snd (snd (ensure_repeatedly m bot' store chat_id project_key project_alias branch bind_state w))))))"
      using Suc.hyps Suc.prems(2) [of m] by simp
    show "\<And>t wa wb snap. get_thread store chat_id t wa = (Some snap, wb) \<Longrightarrow> snap_thread_id snap = t"
      by (rule store_ok)
  qed
  from \<open>1 \<le> m\<close> have rep: "replicate (m - 1) x @ [x] = replicate (Suc m - 1) x" for x :: "(int \<times> bool) option"
    by (cases m) (simp_all add: replicate_append_same)
  show ?case
    using IH step rep [of "Some (message_thread_id topic, False)"]
    by (simp add: ensure_repeatedly_Suc Let_def del: ensure_repeatedly.simps)
qed

lemma demo_first_call:
  "ensure_topic_thread platform state_store 1 ''demo'' ''Demo'' None True fresh_world =
     (Inr (\<lparr>status_chat_id = 1, status_thread_id = 1, status_project = Some ''Demo'',
            status_branch = None, status_topic_title = Some ''Demo'',
            status_default_engine = None, status_sessions = []\<rparr>, True),
      [Find_thread_for_context 1 \<lparr>ctx_project = Some ''demo'', ctx_branch = None\<rparr> None,
       Create_forum_topic 1 ''Demo'' (Some \<lparr>message_thread_id = 1\<rparr>),
       Set_context 1 1 \<lparr>ctx_project = Some ''demo'', ctx_branch = None\<rparr> ''Demo'',
       Get_thread 1 1
         (Some \<lparr>snap_chat_id = 1, snap_thread_id = 1,
                snap_context = Some \<lparr>ctx_project = Some ''demo'', ctx_branch = None\<rparr>,
                snap_sessions = [], snap_topic_title = Some ''Demo'',
                snap_default_engine = None\<rparr>)],
      \<lparr>w_topics = [(1, 1)], w_next_thread = 2,
       w_bindings = [((1, 1), \<lparr>ctx_project = Some ''demo'', ctx_branch = None\<rparr>, ''Demo'')]\<rparr>)"
  by (simp add: ensure_defs world_defs)

lemma demo_later_call:
  "ensure_topic_thread platform state_store 1 ''demo'' ''Demo'' None True
     \<lparr>w_topics = [(1, 1)], w_next_thread = 2,
      w_bindings = [((1, 1), \<lparr>ctx_project = Some ''demo'', ctx_branch = None\<rparr>, ''Demo'')]\<rparr> =
     (Inr (\<lparr>status_chat_id = 1, status_thread_id = 1, status_project = Some ''Demo'',
            status_branch = None, status_topic_title = Some ''Demo'',
            status_default_engine = None, status_sessions = []\<rparr>, False),
      [Find_thread_for_context 1 \<lparr>ctx_project = Some ''demo'', ctx_branch = None\<rparr> (Some 1),
       Edit_forum_topic 1 1 ''Demo'' True,
       Set_context 1 1 \<lparr>ctx_project = Some ''demo'', ctx_branch = None\<rparr> ''Demo'',
       Get_thread 1 1
         (Some \<lparr>snap_chat_id = 1, snap_thread_id = 1,
                snap_context = Some \<lparr>ctx_project = Some ''demo'', ctx_branch = None\<rparr>,
                snap_sessions = [], snap_topic_title = Some ''Demo'',
                snap_default_engine = None\<rparr>)],
      \<lparr>w_topics = [(1, 1)], w_next_thread = 2,
       w_bindings = [((1, 1), \<lparr>ctx_project = Some ''demo'', ctx_branch = None\<rparr>, ''Demo'')]\<rparr>)"
  by (simp add: ensure_defs world_defs)

lemma demo_world_after:
  "1 \<le> k \<Longrightarrow>
   snd (snd (ensure_repeatedly k platform state_store 1 ''demo'' ''Demo'' None True fresh_world)) =
     \<lparr>w_topics = [(1, 1)], w_next_thread = 2,
      w_bindings = [((1, 1), \<lparr>ctx_project = Some ''demo'', ctx_branch = None\<rparr>, ''Demo'')]\<rparr>"
proof (induction k rule: nat_induct_at_least)
  case base
  show ?case
    by (simp add: demo_first_call)
next
  case (Suc m)
  then show ?case
    by (simp add: ensure_repeatedly_Suc Let_def demo_later_call del: ensure_repeatedly.simps)
qed

theorem ensure_topic_thread_idempotent_witness:
  "map outcome (fst (ensure_repeatedly 3 platform state_store 1 ''demo'' ''Demo'' None True fresh_world))
     = [Some (1, True), Some (1, False), Some (1, False)]
   \<and> length (filter is_create_forum_topic
       (fst (snd (ensure_repeatedly 3 platform state_store 1 ''demo'' ''Demo'' None True fresh_world))))
     = 1"
proof -
  have fresh: "fst (find_thread_for_context state_store 1
                 \<lparr>ctx_project = Some ''demo'', ctx_branch = None\<rparr> fresh_world) = None"
    by (simp add: world_defs)
  have create_ok: "fst (create_forum_topic platform 1 (build_topic_title ''Demo'' None)
                     (snd (find_thread_for_context state_store 1
                        \<lparr>ctx_project = Some ''demo'', ctx_branch = None\<rparr> fresh_world)))
                   = Some \<lparr>message_thread_id = 1\<rparr>"
    by (simp add: world_defs)
  have bound: "fst (find_thread_for_context state_store 1
                      \<lparr>ctx_project = Some ''demo'', ctx_branch = None\<rparr>
                      (snd (snd (ensure_repeatedly k platform state_store 1 ''demo'' ''Demo'' None True
                                   fresh_world)))) = Some (message_thread_id \<lparr>message_thread_id = 1\<rparr>)"
    if "1 \<le> k" for k
    using that by (simp add: demo_world_after) (simp add: world_defs)
  have edit_ok: "fst (edit_forum_topic platform 1 (message_thread_id \<lparr>message_thread_id = 1\<rparr>)
                        (build_topic_title ''Demo'' None)
                        (snd (find_thread_for_context state_store 1
                                \<lparr>ctx_project = Some ''demo'', ctx_branch = None\<rparr>
                                (snd (snd (ensure_repeatedly k platform state_store 1 ''demo'' ''Demo''
                                             None True fresh_world))))))"
    if "1 \<le> k" for k
    using that by (simp add: demo_world_after) (simp add: world_defs)
  have "map outcome (fst (ensure_repeatedly 3 platform state_store 1 ''demo'' ''Demo'' None True
                             fresh_world))
          = Some (message_thread_id \<lparr>message_thread_id = 1\<rparr>, True)
              # replicate (3 - 1) (Some (message_thread_id \<lparr>message_thread_id = 1\<rparr>, False))
        \<and> length (filter is_create_forum_topic
            (fst (snd (ensure_repeatedly 3 platform state_store 1 ''demo'' ''Demo'' None True
                         fresh_world)))) = 1"
  proof (rule ensure_topic_thread_idempotent [OF fresh create_ok])
    show "\<And>t wa wb snap. get_thread state_store 1 t wa = (Some snap, wb) \<Longrightarrow> snap_thread_id snap = t"
      by (rule state_store_get_thread)
    show "\<And>k. 1 \<le> k \<Longrightarrow> k < 3 \<Longrightarrow>
            fst (find_thread_for_context state_store 1
                   \<lparr>ctx_project = Some ''demo'', ctx_branch = None\<rparr>
                   (snd (snd (ensure_repeatedly k platform state_store 1 ''demo'' ''Demo'' None True
                                fresh_world)))) = Some (message_thread_id \<lparr>message_thread_id = 1\<rparr>)"
      by (rule bound)
    show "\<And>k. 1 \<le> k \<Longrightarrow> k < 3 \<Longrightarrow>
            fst (edit_forum_topic platform 1 (message_thread_id \<lparr>message_thread_id = 1\<rparr>)
                   (build_topic_title ''Demo'' None)
                   (snd (find_thread_for_context state_store 1
                           \<lparr>ctx_project = Some ''demo'', ctx_branch = None\<rparr>
                           (snd (snd (ensure_repeatedly k platform state_store 1 ''demo'' ''Demo''
                                        None True fresh_world))))))"
      by (rule edit_ok)
    show "1 \<le> (3::nat)"
      by simp
  qed
  then show ?thesis
    by (simp add: numeral_3_eq_3)
qed

text \<open>
  The drift branch when the platform creates no topic: the binding of \<open>old\<close> has been
  deleted by then, and the call raises \<^verbatim>\<open>RuntimeError\<close>.
\<close>

lemma ensure_topic_thread_drift_create_fails:
  assumes found: "find_thread_for_context store chat_id
                    \<lparr>ctx_project = Some project_key, ctx_branch = branch\<rparr> w = (Some old, w1)"
    and rename_fails: "edit_forum_topic bot' chat_id old (build_topic_title project_alias branch) w1
                         = (False, w2)"
    and not_created: "create_forum_topic bot' chat_id (build_topic_title project_alias branch)
                    (delete_thread store chat_id old w2) = (None, w3)"
  shows "ensure_topic_thread bot' store chat_id project_key project_alias branch bind_state w
             = (Inl (RuntimeError ''failed to create telegram forum topic''),
                [Find_thread_for_context chat_id \<lparr>ctx_project = Some project_key, ctx_branch = branch\<rparr> (Some old),
                 Edit_forum_topic chat_id old (build_topic_title project_alias branch) False,
                 Delete_thread chat_id old,
                 Create_forum_topic chat_id (build_topic_title project_alias branch) None],
                w3)"
  using assms
  by (auto simp: ensure_defs split: prod.splits option.splits if_splits)

text \<open>
  C3. The drift branch. Hypotheses: the store reports the thread \<open>old\<close> for the context;
  renaming it fails (\<^verbatim>\<open>edit_forum_topic\<close> returns false); the platform's
  \<^verbatim>\<open>create_forum_topic\<close>, called after \<^verbatim>\<open>delete_thread\<close> on \<open>old\<close>, succeeds and
  returns \<open>topic\<close> (the claim does not say so: when it returns nothing the call raises,
  see \<open>ensure_topic_thread_drift_create_fails\<close>); and the store answers \<^verbatim>\<open>get_thread\<close>
  with a snapshot of the thread it was asked for, or with none. Then the call makes exactly
  these collaborator calls, in this order: the lookup, the failed rename,
  \<^verbatim>\<open>delete_thread\<close> on \<open>old\<close>, one \<^verbatim>\<open>create_forum_topic\<close>, \<^verbatim>\<open>set_context\<close> on the new
  thread when \<^verbatim>\<open>bind_state\<close> is set, and \<^verbatim>\<open>get_thread\<close> on the new thread. The world
  it leaves is the one these calls produce: the world after the failed rename, with the
  binding of \<open>old\<close> deleted, the topic created, the new thread bound (when asked) and read
  back. It returns \<^verbatim>\<open>created = True\<close> with a status whose thread id is that of \<open>topic\<close>.
\<close>

theorem ensure_topic_thread_drift_recreates:
  assumes found: "find_thread_for_context store chat_id
                    \<lparr>ctx_project = Some project_key, ctx_branch = branch\<rparr> w = (Some old, w1)"
    and rename_fails: "edit_forum_topic bot' chat_id old (build_topic_title project_alias branch) w1
                         = (False, w2)"
    and created: "create_forum_topic bot' chat_id (build_topic_title project_alias branch)
                    (delete_thread store chat_id old w2) = (Some topic, w3)"
    and read_back: "get_thread store chat_id (message_thread_id topic)
                      (if bind_state
                       then set_context store chat_id (message_thread_id topic)
                              \<lparr>ctx_project = Some project_key, ctx_branch = branch\<rparr>
                              (build_topic_title project_alias branch) w3
                       else w3) = (answer, w4)"
    and store_ok: "\<And>t wa wb snap. get_thread store chat_id t wa = (Some snap, wb) \<Longrightarrow> snap_thread_id snap = t"
  shows "\<exists>status.
           ensure_topic_thread bot' store chat_id project_key project_alias branch bind_state w
             = (Inr (status, True),
                [Find_thread_for_context chat_id \<lparr>ctx_project = Some project_key, ctx_branch = branch\<rparr> (Some old),
                 Edit_forum_topic chat_id old (build_topic_title project_alias branch) False,
                 Delete_thread chat_id old,
                 Create_forum_topic chat_id (build_topic_title project_alias branch) (Some topic)]
                @ (if bind_state
                   then [Set_context chat_id (message_thread_id topic)
                           \<lparr>ctx_project = Some project_key, ctx_branch = branch\<rparr>
                           (build_topic_title project_alias branch)]
                   else [])
                @ [Get_thread chat_id (message_thread_id topic) answer],
                w4)
         \<and> status_thread_id status = message_thread_id topic"
  using assms
  by (auto simp: ensure_defs split: prod.splits option.splits if_splits)

theorem ensure_topic_thread_drift_recreates_witness:
  "\<exists>status.
     ensure_topic_thread platform state_store 1 ''demo'' ''Demo'' (Some ''main'') True drifted_world
       = (Inr (status, True),
          [Find_thread_for_context 1 \<lparr>ctx_project = Some ''demo'', ctx_branch = Some ''main''\<rparr> (Some 7),
           Edit_forum_topic 1 7 ''Demo @main'' False,
           Delete_thread 1 7,
           Create_forum_topic 1 ''Demo @main'' (Some \<lparr>message_thread_id = 8\<rparr>),
           Set_context 1 8 \<lparr>ctx_project = Some ''demo'', ctx_branch = Some ''main''\<rparr> ''Demo @main'',
           Get_thread 1 8
             (Some \<lparr>snap_chat_id = 1, snap_thread_id = 8,
                    snap_context = Some \<lparr>ctx_project = Some ''demo'', ctx_branch = Some ''main''\<rparr>,
                    snap_sessions = [], snap_topic_title = Some ''Demo @main'',
                    snap_default_engine = None\<rparr>)],
          \<lparr>w_topics = [(1, 8)], w_next_thread = 9,
           w_bindings = [((1, 8), (\<lparr>ctx_project = Some ''demo'', ctx_branch = Some ''main''\<rparr>,
                                  ''Demo @main''))]\<rparr>)
     \<and> status_thread_id status = 8"
proof -
  have found: "find_thread_for_context state_store 1
                 \<lparr>ctx_project = Some ''demo'', ctx_branch = Some ''main''\<rparr> drifted_world
               = (Some 7, drifted_world)"
    by (simp add: world_defs)
  have rename_fails: "edit_forum_topic platform 1 7 (build_topic_title ''Demo'' (Some ''main''))
                        drifted_world = (False, drifted_world)"
    by (simp add: world_defs)
  have created: "create_forum_topic platform 1 (build_topic_title ''Demo'' (Some ''main''))
                   (delete_thread state_store 1 7 drifted_world)
                 = (Some \<lparr>message_thread_id = 8\<rparr>,
                    \<lparr>w_topics = [(1, 8)], w_next_thread = 9, w_bindings = []\<rparr>)"
    by (simp add: world_defs)
  have read_back: "get_thread state_store 1 (message_thread_id \<lparr>message_thread_id = 8\<rparr>)
                     (if True
                      then set_context state_store 1 (message_thread_id \<lparr>message_thread_id = 8\<rparr>)
                             \<lparr>ctx_project = Some ''demo'', ctx_branch = Some ''main''\<rparr>
                             (build_topic_title ''Demo'' (Some ''main''))
                             \<lparr>w_topics = [(1, 8)], w_next_thread = 9, w_bindings = []\<rparr>
                      else \<lparr>w_topics = [(1, 8)], w_next_thread = 9, w_bindings = []\<rparr>)
                   = (Some \<lparr>snap_chat_id = 1, snap_thread_id = 8,
                            snap_context = Some \<lparr>ctx_project = Some ''demo'', ctx_branch = Some ''main''\<rparr>,
                            snap_sessions = [], snap_topic_title = Some ''Demo @main'',
                            snap_default_engine = None\<rparr>,
                      \<lparr>w_topics = [(1, 8)], w_next_thread = 9,
                       w_bindings = [((1, 8), (\<lparr>ctx_project = Some ''demo'', ctx_branch = Some ''main''\<rparr>,
                                              ''Demo @main''))]\<rparr>)"
    by (simp add: world_defs)
  show ?thesis
    using ensure_topic_thread_drift_recreates [OF found rename_fails created read_back state_store_get_thread]
    by (simp add: build_topic_title_def)
qed
text \<open>
  C10. The synthesized snapshot. Whenever a call of \<^verbatim>\<open>ensure_topic_thread\<close> succeeds and
  the store answered its \<^verbatim>\<open>get_thread\<close> with nothing, the returned status is the
  projection of the synthesized snapshot: with \<^verbatim>\<open>bind_state = False\<close> its project and
  branch are \<^verbatim>\<open>None\<close>, whatever project and branch the call was for; with
  \<^verbatim>\<open>bind_state = True\<close> they are the project alias and the branch of the call. In both
  cases the status carries the thread id the store was asked about.
\<close>

theorem ensure_topic_thread_fallback_context:
  assumes run: "ensure_topic_thread bot' store chat_id project_key project_alias branch bind_state w
                  = (Inr (status, created), calls, w')"
    and none: "Get_thread chat_id t None \<in> set calls"
  shows "status_project status = (if bind_state then Some project_alias else None)
       \<and> status_branch status = (if bind_state then branch else None)
       \<and> status_thread_id status = t"
  using assms
  by (auto simp: ensure_defs split: prod.splits option.splits if_splits)

theorem ensure_topic_thread_fallback_context_witness:
  "status_project (fst (projr (fst
      (ensure_topic_thread platform state_store 1 ''demo'' ''Demo'' (Some ''main'') False fresh_world))))
     = None
   \<and> status_branch (fst (projr (fst
      (ensure_topic_thread platform state_store 1 ''demo'' ''Demo'' (Some ''main'') False fresh_world))))
     = None
   \<and> status_project (fst (projr (fst
      (ensure_topic_thread platform lagging_store 1 ''demo'' ''Demo'' (Some ''main'') True fresh_world))))
     = Some ''Demo''
   \<and> status_branch (fst (projr (fst
      (ensure_topic_thread platform lagging_store 1 ''demo'' ''Demo'' (Some ''main'') True fresh_world))))
     = Some ''main''"
proof -
  have unbound: "ensure_topic_thread platform state_store 1 ''demo'' ''Demo'' (Some ''main'') False fresh_world
      = (Inr (\<lparr>status_chat_id = 1, status_thread_id = 1, status_project = None,
               status_branch = None, status_topic_title = Some ''Demo @main'',
               status_default_engine = None, status_sessions = []\<rparr>, True),
         [Find_thread_for_context 1 \<lparr>ctx_project = Some ''demo'', ctx_branch = Some ''main''\<rparr> None,
          Create_forum_topic 1 ''Demo @main'' (Some \<lparr>message_thread_id = 1\<rparr>),
          Get_thread 1 1 None],
         \<lparr>w_topics = [(1, 1)], w_next_thread = 2, w_bindings = []\<rparr>)"
    by (simp add: ensure_defs world_defs)
  have lagging: "ensure_topic_thread platform lagging_store 1 ''demo'' ''Demo'' (Some ''main'') True fresh_world
      = (Inr (\<lparr>status_chat_id = 1, status_thread_id = 1, status_project = Some ''Demo'',
               status_branch = Some ''main'', status_topic_title = Some ''Demo @main'',
               status_default_engine = None, status_sessions = []\<rparr>, True),
         [Find_thread_for_context 1 \<lparr>ctx_project = Some ''demo'', ctx_branch = Some ''main''\<rparr> None,
          Create_forum_topic 1 ''Demo @main'' (Some \<lparr>message_thread_id = 1\<rparr>),
          Set_context 1 1 \<lparr>ctx_project = Some ''demo'', ctx_branch = Some ''main''\<rparr> ''Demo @main'',
          Get_thread 1 1 None],
         \<lparr>w_topics = [(1, 1)], w_next_thread = 2,
          w_bindings = [((1, 1), \<lparr>ctx_project = Some ''demo'', ctx_branch = Some ''main''\<rparr>,
                         ''Demo @main'')]\<rparr>)"
    by (simp add: ensure_defs world_defs)
  have mem1: "Get_thread 1 1 None \<in> set
         [Find_thread_for_context 1 \<lparr>ctx_project = Some ''demo'', ctx_branch = Some ''main''\<rparr> None,
          Create_forum_topic 1 ''Demo @main'' (Some \<lparr>message_thread_id = 1\<rparr>),
          Get_thread 1 1 None]"
    by simp
  have mem2: "Get_thread 1 1 None \<in> set
         [Find_thread_for_context 1 \<lparr>ctx_project = Some ''demo'', ctx_branch = Some ''main''\<rparr> None,
          Create_forum_topic 1 ''Demo @main'' (Some \<lparr>message_thread_id = 1\<rparr>),
          Set_context 1 1 \<lparr>ctx_project = Some ''demo'', ctx_branch = Some ''main''\<rparr> ''Demo @main'',
          Get_thread 1 1 None]"
    by simp
  from ensure_topic_thread_fallback_context [OF unbound mem1]
       ensure_topic_thread_fallback_context [OF lagging mem2]
  show ?thesis
    by (simp add: unbound lagging)
qed

end
